theory Spec2Isabelle
  imports Main
begin

section \<open>Python strings\<close>

text \<open>
  A Python \<^verbatim>\<open>str\<close> is modelled as an Isabelle \<^typ>\<open>string\<close> whose characters are
  the code points below 256, so that the degree sign U+00B0 is the single character
  \<^term>\<open>CHR 0xB0\<close>. The character classes \<^verbatim>\<open>isspace\<close>, \<^verbatim>\<open>isdigit\<close> and the regular
  expression class \<^verbatim>\<open>\w\<close> follow Python on that range. Case conversion is the one of
  the ASCII letters; it leaves every other character unchanged, which is what Python does
  on ASCII text.
\<close>

definition code_point :: "char \<Rightarrow> nat" where
  "code_point c = of_char c"

definition is_ascii :: "char \<Rightarrow> bool" where
  "is_ascii c = (code_point c < 128)"

definition is_upper :: "char \<Rightarrow> bool" where
  "is_upper c = (65 \<le> code_point c \<and> code_point c \<le> 90)"

definition is_lower :: "char \<Rightarrow> bool" where
  "is_lower c = (97 \<le> code_point c \<and> code_point c \<le> 122)"

text \<open>An ASCII letter changes case by its bit 5.\<close>

definition to_lower :: "char \<Rightarrow> char" where
  "to_lower c =
     (if is_upper c
      then (case c of Char b0 b1 b2 b3 b4 b5 b6 b7 \<Rightarrow> Char b0 b1 b2 b3 b4 True b6 b7)
      else c)"

definition to_upper :: "char \<Rightarrow> char" where
  "to_upper c =
     (if is_lower c
      then (case c of Char b0 b1 b2 b3 b4 b5 b6 b7 \<Rightarrow> Char b0 b1 b2 b3 b4 False b6 b7)
      else c)"

text \<open>\<^verbatim>\<open>str.isspace\<close> on one character: TAB to CR, FS to US, space, NEL and NBSP.\<close>

definition is_space :: "char \<Rightarrow> bool" where
  "is_space c =
     (let n = code_point c
      in (9 \<le> n \<and> n \<le> 13) \<or> (28 \<le> n \<and> n \<le> 32) \<or> n = 133 \<or> n = 160)"

text \<open>\<^verbatim>\<open>str.isdigit\<close> on one character: 0 to 9 and the superscripts 2, 3 and 1.\<close>

definition is_digit :: "char \<Rightarrow> bool" where
  "is_digit c =
     (let n = code_point c
      in (48 \<le> n \<and> n \<le> 57) \<or> n = 178 \<or> n = 179 \<or> n = 185)"

text \<open>
  The class \<^verbatim>\<open>\w\<close> of a \<^verbatim>\<open>str\<close> pattern: alphanumeric characters and the underscore.
\<close>

definition is_word :: "char \<Rightarrow> bool" where
  "is_word c =
     (let n = code_point c
      in (48 \<le> n \<and> n \<le> 57) \<or> (65 \<le> n \<and> n \<le> 90) \<or> n = 95 \<or> (97 \<le> n \<and> n \<le> 122)
         \<or> n = 170 \<or> n = 178 \<or> n = 179 \<or> n = 181 \<or> n = 185 \<or> n = 186
         \<or> (188 \<le> n \<and> n \<le> 190) \<or> (192 \<le> n \<and> n \<le> 214) \<or> (216 \<le> n \<and> n \<le> 246)
         \<or> 248 \<le> n)"

definition lower :: "string \<Rightarrow> string" where
  "lower s = map to_lower s"

text \<open>\<^verbatim>\<open>str.capitalize\<close>: the first character in upper case, the rest in lower case.\<close>

definition capitalize :: "string \<Rightarrow> string" where
  "capitalize s = (case s of [] \<Rightarrow> [] | c # cs \<Rightarrow> to_upper c # map to_lower cs)"

definition isdigit :: "string \<Rightarrow> bool" where
  "isdigit s = (s \<noteq> [] \<and> list_all is_digit s)"

definition startswith :: "string \<Rightarrow> string \<Rightarrow> bool" where
  "startswith s p = (take (length p) s = p)"

definition endswith :: "string \<Rightarrow> string \<Rightarrow> bool" where
  "endswith s p = (length p \<le> length s \<and> drop (length s - length p) s = p)"

text \<open>\<^verbatim>\<open>sub in s\<close> on strings.\<close>

fun contains :: "string \<Rightarrow> string \<Rightarrow> bool" where
  "contains sub [] = (sub = [])"
| "contains sub (c # cs) = (startswith (c # cs) sub \<or> contains sub cs)"

text \<open>
  \<^verbatim>\<open>s.replace(old, new)\<close>: every occurrence of \<open>old\<close>, leftmost first and without
  overlap; an empty \<open>old\<close> matches before every character and at the end.
\<close>

function replace :: "string \<Rightarrow> string \<Rightarrow> string \<Rightarrow> string" where
  "replace old new [] = (if old = [] then new else [])"
| "replace old new (c # cs) =
     (if old = [] then new @ c # replace old new cs
      else if startswith (c # cs) old then new @ replace old new (drop (length old) (c # cs))
      else c # replace old new cs)"
  by pat_completeness auto
termination
  by (relation "measure (\<lambda>(old, new, s). length s)") auto

text \<open>\<^verbatim>\<open>s.strip()\<close>: whitespace removed at both ends.\<close>

definition strip :: "string \<Rightarrow> string" where
  "strip s = rev (dropWhile is_space (rev (dropWhile is_space s)))"

text \<open>\<^verbatim>\<open>s.split()\<close>: the maximal runs of characters that are not whitespace.\<close>

function split_ws :: "string \<Rightarrow> string list" where
  "split_ws [] = []"
| "split_ws (c # cs) =
     (if is_space c then split_ws cs
      else (c # takeWhile (\<lambda>x. \<not> is_space x) cs) # split_ws (dropWhile (\<lambda>x. \<not> is_space x) cs))"
  by pat_completeness auto
termination
  by (relation "measure length") (auto simp: less_Suc_eq_le length_dropWhile_le)

text \<open>\<^verbatim>\<open>sep.join(parts)\<close>.\<close>

fun join :: "string \<Rightarrow> string list \<Rightarrow> string" where
  "join sep [] = []"
| "join sep [w] = w"
| "join sep (w # v # ws) = w @ sep @ join sep (v # ws)"

text \<open>
  \<^verbatim>\<open>s.index(c)\<close> for a character that occurs in \<open>s\<close>, and the slice \<^verbatim>\<open>s[a:b]\<close>, which is
  empty when \<open>b \<le> a\<close>.
\<close>

definition index_of :: "char \<Rightarrow> string \<Rightarrow> nat" where
  "index_of c s = length (takeWhile (\<lambda>x. x \<noteq> c) s)"

definition slice :: "nat \<Rightarrow> nat \<Rightarrow> string \<Rightarrow> string" where
  "slice a b s = take (b - a) (drop a s)"

section \<open>The text normalizer: \<^verbatim>\<open>to_title_case\<close> of fix-title-case.py\<close>

text \<open>
  The first pass is \<^verbatim>\<open>re.sub(r'\b[\w]+-[\w]+\b', title_case_hyphenated, text)\<close>. A match
  starts at the start of a maximal run of word characters that is followed by a hyphen
  and a word character, and it ends with the maximal run after the hyphen; both runs are
  capitalized and the scan goes on behind the match. The function is always entered at
  the start of a run, since it consumes whole runs.
\<close>

function sub_hyphenated :: "string \<Rightarrow> string" where
  "sub_hyphenated [] = []"
| "sub_hyphenated (c # cs) =
     (if is_word c then
        (let r1 = c # takeWhile is_word cs; rest = dropWhile is_word cs
         in (case rest of
               [] \<Rightarrow> r1
             | h # rest' \<Rightarrow>
                 if h = CHR ''-'' \<and> rest' \<noteq> [] \<and> is_word (hd rest')
                 then capitalize r1 @ ''-'' @ capitalize (takeWhile is_word rest')
                        @ sub_hyphenated (dropWhile is_word rest')
                 else r1 @ h # sub_hyphenated rest'))
      else c # sub_hyphenated cs)"
  by pat_completeness auto
termination
proof (relation "measure length")
  show "wf (measure length)" by simp
next
  fix c :: char and cs r1 rest :: string and h :: char and rest' :: string
  assume "rest = dropWhile is_word cs" and "rest = h # rest'"
  then have "length (h # rest') \<le> length cs"
    by (metis length_dropWhile_le)
  moreover have "length (dropWhile is_word rest') \<le> length rest'"
    by (rule length_dropWhile_le)
  ultimately show "(dropWhile is_word rest', c # cs) \<in> measure length" by simp
next
  fix c :: char and cs r1 rest :: string and h :: char and rest' :: string
  assume "rest = dropWhile is_word cs" and "rest = h # rest'"
  then have "length (h # rest') \<le> length cs"
    by (metis length_dropWhile_le)
  then show "(rest', c # cs) \<in> measure length" by simp
next
  fix c :: char and cs :: string
  show "(cs, c # cs) \<in> measure length" by simp
qed

definition small_words :: "string list" where
  "small_words = [''of'', ''the'', ''a'', ''an'', ''and'', ''or'', ''to'', ''in'', ''with'']"

text \<open>
  The body of the loop over \<^verbatim>\<open>enumerate(words)\<close>. The words come from \<^verbatim>\<open>split()\<close> and
  are never empty, so \<^verbatim>\<open>word[0]\<close> is always there.
\<close>

definition title_word :: "nat \<Rightarrow> string \<Rightarrow> string" where
  "title_word i word =
     (if CHR ''('' \<in> set word \<and> CHR '')'' \<in> set word then
        (let before_paren = take (index_of CHR ''('' word) word;
             in_paren = slice (index_of CHR ''('' word + 1) (index_of CHR '')'' word) word;
             after_paren = (if index_of CHR '')'' word < length word - 1
                            then drop (index_of CHR '')'' word + 1) word else [])
         in capitalize before_paren @ ''('' @ lower in_paren @ '')'' @ after_paren)
      else if i = 0 then (if CHR ''-'' \<notin> set word then capitalize word else word)
      else if lower word \<in> set small_words then lower word
      else if CHR ''-'' \<in> set word \<or> (case word of [] \<Rightarrow> False | c # _ \<Rightarrow> is_upper c) then word
      else capitalize word)"

fun title_words :: "nat \<Rightarrow> string list \<Rightarrow> string list" where
  "title_words i [] = []"
| "title_words i (word # words) = title_word i word # title_words (Suc i) words"

definition to_title_case :: "string \<Rightarrow> string" where
  "to_title_case text =
     (if text = [] then text
      else (let text' = sub_hyphenated text; words = split_ws text'
            in if words = [] then text' else join '' '' (title_words 0 words)))"

section \<open>JSON documents and Python errors\<close>

text \<open>
  A parsed document, as \<^verbatim>\<open>json.load\<close> returns it: a \<^verbatim>\<open>dict\<close> is an association list in
  insertion order, a number is an integer (no script computes with floats). Storing a key
  that is there keeps its place, storing a new key appends it, as Python's \<^verbatim>\<open>dict\<close>
  does.
\<close>

datatype json =
    JNull
  | JBool bool
  | JNum int
  | JStr string
  | JArr "json list"
  | JObj "(string \<times> json) list"

datatype py_error = KeyError | TypeError | AttributeError | FileNotFoundError

text \<open>The truth value of \<^verbatim>\<open>if value\<close>.\<close>

fun truthy :: "json \<Rightarrow> bool" where
  "truthy JNull = False"
| "truthy (JBool b) = b"
| "truthy (JNum n) = (n \<noteq> 0)"
| "truthy (JStr s) = (s \<noteq> [])"
| "truthy (JArr xs) = (xs \<noteq> [])"
| "truthy (JObj kvs) = (kvs \<noteq> [])"

text \<open>\<^verbatim>\<open>k in d\<close>, \<^verbatim>\<open>d.get(k, default)\<close>, \<^verbatim>\<open>d[k] = v\<close> and \<^verbatim>\<open>del d[k]\<close> on a \<^verbatim>\<open>dict\<close>.\<close>

definition has_key :: "(string \<times> 'v) list \<Rightarrow> string \<Rightarrow> bool" where
  "has_key d k = (map_of d k \<noteq> None)"

definition dict_get :: "(string \<times> 'v) list \<Rightarrow> string \<Rightarrow> 'v \<Rightarrow> 'v" where
  "dict_get d k dflt = (case map_of d k of None \<Rightarrow> dflt | Some v \<Rightarrow> v)"

fun dict_set :: "string \<Rightarrow> 'v \<Rightarrow> (string \<times> 'v) list \<Rightarrow> (string \<times> 'v) list" where
  "dict_set k v [] = [(k, v)]"
| "dict_set k v (p # ps) = (if fst p = k then (k, v) # ps else p # dict_set k v ps)"

definition dict_remove :: "string \<Rightarrow> (string \<times> 'v) list \<Rightarrow> (string \<times> 'v) list" where
  "dict_remove k d = filter (\<lambda>p. fst p \<noteq> k) d"

definition dict_del :: "string \<Rightarrow> (string \<times> 'v) list \<Rightarrow> py_error + (string \<times> 'v) list" where
  "dict_del k d = (if has_key d k then Inr (dict_remove k d) else Inl KeyError)"

text \<open>\<^verbatim>\<open>x.get(k, default)\<close> on any value: only a \<^verbatim>\<open>dict\<close> has the method.\<close>

definition py_get :: "json \<Rightarrow> string \<Rightarrow> json \<Rightarrow> py_error + json" where
  "py_get x k dflt =
     (case x of JObj d \<Rightarrow> Inr (dict_get d k dflt) | _ \<Rightarrow> Inl AttributeError)"

text \<open>
  The elements a \<^verbatim>\<open>for\<close> loop visits: those of a list, the keys of a \<^verbatim>\<open>dict\<close>, the
  characters of a string; nothing else is iterable.
\<close>

definition py_iter :: "json \<Rightarrow> py_error + json list" where
  "py_iter x =
     (case x of
        JArr xs \<Rightarrow> Inr xs
      | JObj d \<Rightarrow> Inr (map (\<lambda>p. JStr (fst p)) d)
      | JStr s \<Rightarrow> Inr (map (\<lambda>c. JStr [c]) s)
      | _ \<Rightarrow> Inl TypeError)"

text \<open>\<^verbatim>\<open>k in x\<close> and \<^verbatim>\<open>x[k]\<close> for a string \<open>k\<close> and any value \<open>x\<close>.\<close>

definition py_in :: "string \<Rightarrow> json \<Rightarrow> py_error + bool" where
  "py_in k x =
     (case x of
        JObj d \<Rightarrow> Inr (has_key d k)
      | JArr xs \<Rightarrow> Inr (JStr k \<in> set xs)
      | JStr s \<Rightarrow> Inr (contains k s)
      | _ \<Rightarrow> Inl TypeError)"

definition py_index :: "json \<Rightarrow> string \<Rightarrow> py_error + json" where
  "py_index x k =
     (case x of
        JObj d \<Rightarrow> (case map_of d k of None \<Rightarrow> Inl KeyError | Some v \<Rightarrow> Inr v)
      | _ \<Rightarrow> Inl TypeError)"

text \<open>
  A loop \<^verbatim>\<open>for x in xs: body(x)\<close> whose body changes \<open>x\<close> in place and the state of the
  run: the first exception ends the loop.
\<close>

fun for_each ::
    "('s \<Rightarrow> json \<Rightarrow> py_error + 's \<times> json) \<Rightarrow> 's \<Rightarrow> json list \<Rightarrow> py_error + 's \<times> json list" where
  "for_each body st [] = Inr (st, [])"
| "for_each body st (x # xs) =
     (case body st x of
        Inl e \<Rightarrow> Inl e
      | Inr (st', x') \<Rightarrow>
          (case for_each body st' xs of
             Inl e \<Rightarrow> Inl e
           | Inr (st'', xs') \<Rightarrow> Inr (st'', x' # xs')))"

text \<open>
  The container after the loop: a list holds the changed elements; the keys of a \<^verbatim>\<open>dict\<close>
  and the characters of a string are strings, which no body can change.
\<close>

definition put_back :: "json \<Rightarrow> json list \<Rightarrow> json" where
  "put_back container items = (case container of JArr _ \<Rightarrow> JArr items | _ \<Rightarrow> container)"

section \<open>The technique/target decomposer of chon\_ji\_dan\_gun\_corrections.py\<close>

text \<open>
  \<^verbatim>\<open>_standardize_target\<close>. The target comes from \<^verbatim>\<open>move.get('target', '')\<close> and may be any
  value of the document: a false value and the string \<^verbatim>\<open>"null"\<close> are returned as they are,
  and \<^verbatim>\<open>target.lower()\<close> raises on what is no string.
\<close>

definition standardize_target :: "json \<Rightarrow> py_error + json" where
  "standardize_target target =
     (if \<not> truthy target \<or> target = JStr ''null'' then Inr target
      else (case target of
              JStr s \<Rightarrow>
                (let target_lower = lower s
                 in if target_lower \<in> set [''lower section'', ''low section'']
                    then Inr (JStr ''Low Section'')
                    else if target_lower \<in> set [''middle section'', ''solar plexus'']
                    then Inr (JStr ''Middle Section'')
                    else if target_lower \<in> set [''upper section'', ''high section'', ''head level'']
                    then Inr (JStr ''High Section'')
                    else Inr target)
            | _ \<Rightarrow> Inl AttributeError))"

text \<open>\<^verbatim>\<open>_split_technique_target\<close>; the move number and the pattern name are not used.\<close>

definition split_technique_target ::
    "json \<Rightarrow> json \<Rightarrow> json \<Rightarrow> string \<Rightarrow> py_error + json \<times> json" where
  "split_technique_target technique current_target move_num pattern_name =
     (if technique = JStr ''Low Outer Forearm Block''
      then Inr (JStr ''Outer Forearm Block'', JStr ''Low Section'')
      else if technique = JStr ''Middle Obverse Punch''
      then Inr (JStr ''Obverse Punch'', JStr ''Middle Section'')
      else if technique = JStr ''High Obverse Punch''
      then Inr (JStr ''Obverse Punch'', JStr ''High Section'')
      else if technique = JStr ''Middle Inner Forearm Block''
      then Inr (JStr ''Inner Forearm Block'', JStr ''Middle Section'')
      else if technique = JStr ''High Obverse Block''
      then Inr (JStr ''Outer Forearm Block'', JStr ''High Section'')
      else if technique = JStr ''Rising Block''
      then Inr (JStr ''Forearm Rising Block'', JStr ''High Section'')
      else (case standardize_target current_target of
              Inl e \<Rightarrow> Inl e
            | Inr new_target \<Rightarrow> Inr (technique, new_target)))"

text \<open>
  The split table of \<^verbatim>\<open>_split_technique_target\<close> read as data, and the synonyms of
  \<^verbatim>\<open>_standardize_target\<close>, to state what the two functions compute.
\<close>

definition split_table :: "(string \<times> string \<times> string) list" where
  "split_table =
     [(''Low Outer Forearm Block'', ''Outer Forearm Block'', ''Low Section''),
      (''Middle Obverse Punch'', ''Obverse Punch'', ''Middle Section''),
      (''High Obverse Punch'', ''Obverse Punch'', ''High Section''),
      (''Middle Inner Forearm Block'', ''Inner Forearm Block'', ''Middle Section''),
      (''High Obverse Block'', ''Outer Forearm Block'', ''High Section''),
      (''Rising Block'', ''Forearm Rising Block'', ''High Section'')]"

definition canonical_target :: "string \<Rightarrow> string" where
  "canonical_target target =
     (if lower target = ''lower section'' \<or> lower target = ''low section'' then ''Low Section''
      else if lower target = ''middle section'' \<or> lower target = ''solar plexus''
      then ''Middle Section''
      else if lower target = ''upper section'' \<or> lower target = ''high section''
              \<or> lower target = ''head level''
      then ''High Section''
      else target)"

section \<open>The correction applier of update\_patterns\_from\_csv.py\<close>

text \<open>
  A correction is the \<^verbatim>\<open>dict\<close> that \<^verbatim>\<open>load_corrections\<close> builds from one row of the table:
  it always has the five keys, and every value is a string.
\<close>

record correction =
  direction :: string
  movement :: string
  stance :: string
  technique :: string
  target :: string

definition degree :: char where
  "degree = CHR 0xB0"

text \<open>
  \<^verbatim>\<open>standardize_values\<close> works on a copy of the correction, in three blocks, each of which
  reads one key and stores that key only: the movement, the stance, the technique.
\<close>

definition standardize_movement :: "string \<Rightarrow> string" where
  "standardize_movement mv =
     (if mv = ''-'' then ''-''
      else if isdigit mv then
        (if mv = ''90'' then ''Left '' @ mv @ [degree]
         else (if \<not> endswith mv [degree] then mv @ [degree] else mv))
      else if \<not> endswith mv [degree]
              \<and> list_ex (\<lambda>deg. contains deg mv) [''90'', ''180'', ''270'', ''360'', ''45'', ''135'']
      then (if \<not> contains [degree] mv then mv @ [degree] else mv)
      else mv)"

definition standardize_stance :: "string \<Rightarrow> string" where
  "standardize_stance st =
     (if contains ''L Stance'' st \<and> \<not> contains ''-'' st
      then replace ''L Stance'' ''L-stance'' st
      else if st = ''Walking Stance'' then st
      else st)"

definition standardize_values :: "correction \<Rightarrow> correction" where
  "standardize_values corr =
     (let standardized = corr;
          standardized = standardized\<lparr>movement := standardize_movement (movement standardized)\<rparr>;
          standardized = standardized\<lparr>stance := standardize_stance (stance standardized)\<rparr>
      in standardized\<lparr>technique := strip (technique standardized)\<rparr>)"
section \<open>The schema migrator of standardize\_language\_properties.py\<close>

text \<open>
  The state of a \<^verbatim>\<open>LanguagePropertyStandardizer\<close>: its two flags, the counters of
  \<^verbatim>\<open>self.stats\<close> and the change log. A log line is kept as the change it reports.
\<close>

datatype change = RemovedEmpty string string | Renamed string string string

record standardizer =
  dry_run :: bool
  verbose :: bool
  empty_fields_removed :: nat
  properties_renamed :: nat
  files_written :: nat
  files_analyzed :: nat
  changes_log :: "change list"

text \<open>\<^verbatim>\<open>__init__\<close>: empty counters and an empty log.\<close>

definition new_standardizer :: "bool \<Rightarrow> bool \<Rightarrow> standardizer" where
  "new_standardizer dry verb =
     \<lparr>dry_run = dry, verbose = verb, empty_fields_removed = 0, properties_renamed = 0,
      files_written = 0, files_analyzed = 0, changes_log = []\<rparr>"

type_synonym field_mapping = "(string \<times> string) list"

text \<open>
  \<^verbatim>\<open>_rename_keys\<close>, first loop: over the mapping in its order, a source key with a true
  value is noted for renaming, a source key with a false value is deleted at once
  (\<^verbatim>\<open>del\<close> cannot fail there: the key was just found).
\<close>

fun collect_renames ::
    "standardizer \<Rightarrow> string \<Rightarrow> field_mapping \<Rightarrow> (string \<times> json) list
      \<Rightarrow> (string \<times> string \<times> json) list
      \<Rightarrow> standardizer \<times> (string \<times> json) list \<times> (string \<times> string \<times> json) list" where
  "collect_renames st ctx [] obj keys_to_rename = (st, obj, keys_to_rename)"
| "collect_renames st ctx ((old_key, new_key) # mapping) obj keys_to_rename =
     (case map_of obj old_key of
        None \<Rightarrow> collect_renames st ctx mapping obj keys_to_rename
      | Some v \<Rightarrow>
          if truthy v \<and> v \<noteq> JStr []
          then collect_renames st ctx mapping obj (keys_to_rename @ [(old_key, new_key, v)])
          else collect_renames
                 (st\<lparr>empty_fields_removed := empty_fields_removed st + 1,
                     changes_log := (if verbose st then changes_log st @ [RemovedEmpty ctx old_key]
                                     else changes_log st)\<rparr>)
                 ctx mapping (dict_remove old_key obj) keys_to_rename)"

text \<open>
  \<^verbatim>\<open>_rename_keys\<close>, second loop: the noted keys are stored under their new names and
  deleted under the old ones. Here \<^verbatim>\<open>del\<close> raises when the key is gone.
\<close>

fun apply_renames ::
    "standardizer \<Rightarrow> string \<Rightarrow> (string \<times> string \<times> json) list \<Rightarrow> (string \<times> json) list
      \<Rightarrow> py_error + standardizer \<times> (string \<times> json) list" where
  "apply_renames st ctx [] obj = Inr (st, obj)"
| "apply_renames st ctx ((old_key, new_key, v) # keys_to_rename) obj =
     (if old_key \<noteq> new_key then
        (case dict_del old_key (dict_set new_key v obj) of
           Inl e \<Rightarrow> Inl e
         | Inr obj' \<Rightarrow>
             apply_renames
               (st\<lparr>properties_renamed := properties_renamed st + 1,
                   changes_log := (if verbose st then changes_log st @ [Renamed ctx old_key new_key]
                                   else changes_log st)\<rparr>)
               ctx keys_to_rename obj')
      else apply_renames st ctx keys_to_rename obj)"

definition rename_keys ::
    "standardizer \<Rightarrow> (string \<times> json) list \<Rightarrow> field_mapping \<Rightarrow> string
      \<Rightarrow> py_error + standardizer \<times> (string \<times> json) list" where
  "rename_keys st obj mapping ctx =
     (case collect_renames st ctx mapping obj [] of
        (st', obj', keys_to_rename) \<Rightarrow> apply_renames st' ctx keys_to_rename obj')"

text \<open>
  \<^verbatim>\<open>_rename_keys\<close> called on any value of the document. On a string \<^verbatim>\<open>old_key in obj\<close>
  is a substring test and on a list a membership test, and \<^verbatim>\<open>obj[old_key]\<close> raises
  after a positive test; on a number, a boolean or \<^verbatim>\<open>None\<close> the test itself raises.
\<close>

definition rename_keys_value ::
    "field_mapping \<Rightarrow> standardizer \<Rightarrow> json \<Rightarrow> py_error + standardizer \<times> json" where
  "rename_keys_value mapping st x =
     (case x of
        JObj d \<Rightarrow>
          (case rename_keys st d mapping [] of
             Inl e \<Rightarrow> Inl e
           | Inr (st', d') \<Rightarrow> Inr (st', JObj d'))
      | JStr s \<Rightarrow>
          if list_ex (\<lambda>m. contains (fst m) s) mapping then Inl TypeError else Inr (st, x)
      | JArr xs \<Rightarrow>
          if list_ex (\<lambda>m. JStr (fst m) \<in> set xs) mapping then Inl TypeError else Inr (st, x)
      | _ \<Rightarrow> if mapping = [] then Inr (st, x) else Inl TypeError)"

text \<open>The mapping tables of the document types.\<close>

definition terminology_mapping :: field_mapping where
  "terminology_mapping =
     [(''english_term'', ''english''),
      (''romanized_pronunciation'', ''romanised''),
      (''korean_hangul'', ''hangul''),
      (''phonetic_pronunciation'', ''phonetic'')]"

definition techniques_mapping :: field_mapping where
  "techniques_mapping =
     [(''korean_romanized'', ''romanised''),
      (''korean'', ''hangul''),
      (''korean_hangul'', ''hangul'')]"

definition pattern_mapping :: field_mapping where
  "pattern_mapping = [(''name'', ''english''), (''pronunciation'', ''romanised'')]"

definition move_mapping :: field_mapping where
  "move_mapping = [(''technique'', ''english''), (''korean_technique'', ''romanised'')]"

definition action_mapping :: field_mapping where
  "action_mapping = [(''technique'', ''english''), (''korean_name'', ''romanised'')]"

definition theory_mapping :: field_mapping where
  "theory_mapping = [(''name'', ''english''), (''korean'', ''romanised'')]"

definition vocabulary_mapping :: field_mapping where
  "vocabulary_mapping = [(''romanized'', ''romanised'')]"

text \<open>\<^verbatim>\<open>standardize_patterns\<close>: the body of the loop over the patterns, and the function.\<close>

definition standardize_pattern :: "standardizer \<Rightarrow> json \<Rightarrow> py_error + standardizer \<times> json" where
  "standardize_pattern st pattern =
     (case rename_keys_value pattern_mapping st pattern of
        Inl e \<Rightarrow> Inl e
      | Inr (st1, pattern1) \<Rightarrow>
          (case py_in ''moves'' pattern1 of
             Inl e \<Rightarrow> Inl e
           | Inr False \<Rightarrow> Inr (st1, pattern1)
           | Inr True \<Rightarrow>
               (case py_index pattern1 ''moves'' of
                  Inl e \<Rightarrow> Inl e
                | Inr moves \<Rightarrow>
                    (case py_iter moves of
                       Inl e \<Rightarrow> Inl e
                     | Inr items \<Rightarrow>
                         (case for_each (rename_keys_value move_mapping) st1 items of
                            Inl e \<Rightarrow> Inl e
                          | Inr (st2, items') \<Rightarrow>
                              (case pattern1 of
                                 JObj d \<Rightarrow>
                                   Inr (st2, JObj (dict_set ''moves'' (put_back moves items') d))
                               | _ \<Rightarrow> Inr (st2, pattern1)))))))"

definition standardize_patterns :: "standardizer \<Rightarrow> json \<Rightarrow> py_error + standardizer \<times> json" where
  "standardize_patterns st data =
     (case py_in ''patterns'' data of
        Inl e \<Rightarrow> Inl e
      | Inr False \<Rightarrow> Inr (st, data)
      | Inr True \<Rightarrow>
          (case py_index data ''patterns'' of
             Inl e \<Rightarrow> Inl e
           | Inr patterns \<Rightarrow>
               (case py_iter patterns of
                  Inl e \<Rightarrow> Inl e
                | Inr items \<Rightarrow>
                    (case for_each standardize_pattern st items of
                       Inl e \<Rightarrow> Inl e
                     | Inr (st', items') \<Rightarrow>
                         (case data of
                            JObj d \<Rightarrow>
                              Inr (st', JObj (dict_set ''patterns'' (put_back patterns items') d))
                          | _ \<Rightarrow> Inr (st', data))))))"

text \<open>
  To state what the migration leaves alone: the part of a node that a mapping does not
  name, which is the node without the source and target keys of the mapping, and the same
  for a pattern document, where the mapped nodes are the patterns and their moves.
\<close>

definition unmapped :: "field_mapping \<Rightarrow> (string \<times> json) list \<Rightarrow> (string \<times> json) list" where
  "unmapped m d = filter (\<lambda>p. fst p \<notin> fst ` set m \<union> snd ` set m) d"

definition frame_value :: "field_mapping \<Rightarrow> json \<Rightarrow> json" where
  "frame_value m x = (case x of JObj d \<Rightarrow> JObj (unmapped m d) | _ \<Rightarrow> x)"

definition frame_elements :: "(json \<Rightarrow> json) \<Rightarrow> json \<Rightarrow> json" where
  "frame_elements f x = (case x of JArr xs \<Rightarrow> JArr (map f xs) | _ \<Rightarrow> x)"

definition frame_under :: "string \<Rightarrow> (json \<Rightarrow> json) \<Rightarrow> string \<times> json \<Rightarrow> string \<times> json" where
  "frame_under key f p = (if fst p = key then (fst p, frame_elements f (snd p)) else p)"

definition frame_pattern :: "json \<Rightarrow> json" where
  "frame_pattern pattern =
     (case pattern of
        JObj d \<Rightarrow>
          JObj (map (frame_under ''moves'' (frame_value move_mapping)) (unmapped pattern_mapping d))
      | _ \<Rightarrow> pattern)"

definition frame_patterns :: "json \<Rightarrow> json" where
  "frame_patterns data =
     (case data of
        JObj d \<Rightarrow> JObj (map (frame_under ''patterns'' frame_pattern) d)
      | _ \<Rightarrow> data)"

text \<open>
  What the first loop of \<^verbatim>\<open>_rename_keys\<close> notes for renaming and what it deletes, and the
  entries of such a list that rename to one key.
\<close>

definition pending ::
    "(string \<times> json) list \<Rightarrow> field_mapping \<Rightarrow> (string \<times> string \<times> json) list" where
  "pending obj m =
     concat (map (\<lambda>(old, new). case map_of obj old of
                                  Some v \<Rightarrow> if truthy v then [(old, new, v)] else []
                                | None \<Rightarrow> []) m)"

definition dead :: "(string \<times> json) list \<Rightarrow> field_mapping \<Rightarrow> string set" where
  "dead obj m = {k \<in> fst ` set m. \<exists>v. map_of obj k = Some v \<and> \<not> truthy v}"

definition renamed_to ::
    "string \<Rightarrow> (string \<times> string \<times> json) list \<Rightarrow> (string \<times> string \<times> json) list" where
  "renamed_to k ktr = filter (\<lambda>e. fst (snd e) = k) ktr"


text \<open>
  The migration of a pattern document as a function of the document alone, to state what
  \<^verbatim>\<open>standardize_patterns\<close> does to it: every pattern has its keys renamed, and every move
  of every pattern; a node keeps its place, a sequence its length and its order, and
  nothing else is touched. The renaming of one node is \<^verbatim>\<open>_rename_keys\<close> on a fresh
  standardizer; what is no \<^verbatim>\<open>dict\<close> stays as it is.
\<close>

definition migrated_node :: "field_mapping \<Rightarrow> json \<Rightarrow> json" where
  "migrated_node m x =
     (case x of
        JObj d \<Rightarrow>
          (case rename_keys (new_standardizer False False) d m [] of
             Inl e \<Rightarrow> x
           | Inr (st', d') \<Rightarrow> JObj d')
      | _ \<Rightarrow> x)"

definition migrated_pattern :: "json \<Rightarrow> json" where
  "migrated_pattern pattern =
     (case migrated_node pattern_mapping pattern of
        JObj d \<Rightarrow>
          (case map_of d ''moves'' of
             None \<Rightarrow> JObj d
           | Some moves \<Rightarrow>
               JObj (dict_set ''moves'' (frame_elements (migrated_node move_mapping) moves) d))
      | x \<Rightarrow> x)"

definition migrated_patterns :: "json \<Rightarrow> json" where
  "migrated_patterns data =
     (case data of
        JObj d \<Rightarrow>
          (case map_of d ''patterns'' of
             None \<Rightarrow> data
           | Some patterns \<Rightarrow>
               JObj (dict_set ''patterns'' (frame_elements migrated_pattern patterns) d))
      | _ \<Rightarrow> data)"
section \<open>The document store\<close>

text \<open>
  The files of the content directory, as the parsed documents they hold (\<^verbatim>\<open>json.load\<close>
  and \<^verbatim>\<open>json.dump\<close> are taken as inverse to each other), and the paths written so far.
\<close>

record store =
  contents :: "string \<Rightarrow> json option"
  written :: "string list"

definition write_file :: "string \<Rightarrow> json \<Rightarrow> store \<Rightarrow> store" where
  "write_file path data s = s\<lparr>contents := (contents s)(path \<mapsto> data), written := written s @ [path]\<rparr>"

section \<open>The romanization corrector of korean\_romanization\_corrections.py\<close>

text \<open>\<^verbatim>\<open>_build_korean_mapping\<close>: the table, in the order of its \<^verbatim>\<open>update\<close> calls.\<close>

definition korean_mapping :: "(string \<times> string) list" where
  "korean_mapping =
     [(''Obverse Punch'', ''Baro Jirugi''),
      (''Reverse Punch'', ''Bandae Jirugi''),
      (''High Punch'', ''Nopunde Jirugi''),
      (''Middle Punch'', ''Kaunde Jirugi''),
      (''Low Punch'', ''Najunde Jirugi''),
      (''Upset Punch'', ''Dwijibo Jirugi''),
      (''Twin Vertical Punch'', ''Sang Sewo Jirugi''),
      (''Double Punch'', ''Doo Jirugi''),
      (''Flat Fingertip Thrust'', ''Opun Sonkut Tulgi''),
      (''Straight Fingertip Thrust'', ''Sun Sonkut Tulgi''),
      (''Upset Fingertip Thrust'', ''Dwijibo Sonkut Tulgi''),
      (''Inner Forearm Block'', ''An Palmok Makgi''),
      (''Inner Forearm Middle Block'', ''An Palmok Kaunde Makgi''),
      (''Outer Forearm Block'', ''Bakat Palmok Makgi''),
      (''Outer Forearm Low Block'', ''Bakat Palmok Najunde Makgi''),
      (''Outer Forearm Middle Block'', ''Bakat Palmok Kaunde Makgi''),
      (''Outer Forearm High Block'', ''Bakat Palmok Nopunde Makgi''),
      (''Outer Forearm Middle Inward Block'', ''Bakat Palmok Kaunde Anaero Makgi''),
      (''Twin Outer Forearm Block'', ''Sang Bakat Palmok Makgi''),
      (''Double Forearm Block'', ''Doo Palmok Makgi''),
      (''Forearm Guarding Block'', ''Palmok Daebi Makgi''),
      (''Forearm Rising Block'', ''Palmok Chookyo Makgi''),
      (''Inner Forearm Circular Block'', ''An Palmok Dollimyo Makgi''),
      (''Knife Hand Block'', ''Sonkal Makgi''),
      (''Knife Hand Guarding Block'', ''Sonkal Daebi Makgi''),
      (''Knife Hand Strike'', ''Sonkal Taerigi''),
      (''Inward Knife Hand Strike'', ''Anaero Sonkal Taerigi''),
      (''Knife Hand Downward Strike'', ''Naeryo Sonkal Taerigi''),
      (''Reverse Knife Hand Strike'', ''Bandae Sonkal Taerigi''),
      (''Reverse Knife Hand Inward Strike'', ''Sonkal Dung Anaero Taerigi''),
      (''Twin Knife Hand Block'', ''Sang Sonkal Makgi''),
      (''X Knife Hand Checking Block'', ''Kyocha Sonkal Momchau Makgi''),
      (''Back Fist Strike'', ''Dung Joomuk Taerigi''),
      (''Back Fist Rear Strike'', ''Dung Joomuk Dwutcha Taerigi''),
      (''Back Fist Side Strike'', ''Dung Joomuk Yop Taerigi''),
      (''Back Fist Strike/Outer Forearm Low Block'', ''Dung Joomuk Taerigi/Bakat Palmok Najunde Makgi''),
      (''Palm Pushing Block'', ''Sonbadak Mireo Makgi''),
      (''Twin Palm Upward Block'', ''Sang Sonbadak Ollyo Makgi''),
      (''Twin Upward Palm Block'', ''Sang Sonbadak Ollyo Makgi''),
      (''Front Kick'', ''Ap Chagi''),
      (''Front Snap Kick'', ''Ap Cha Busigi''),
      (''Side Piercing Kick'', ''Yop Cha Jirugi''),
      (''Side Piercing Kick to Rear'', ''Dwi Yop Cha Jirugi''),
      (''Turning Kick'', ''Dollyo Chagi''),
      (''Reverse Side Kick'', ''Bandae Yop Chagi''),
      (''Flying Side Piercing Kick'', ''Twimyo Yop Cha Jirugi''),
      (''Rising Kick'', ''Ap Cha Olligi''),
      (''Knee Kick'', ''Moorup Chagi''),
      (''X-Fist Pressing Block'', ''Kyocha Joomuk Noollo Makgi''),
      (''U-shape Block'', ''Digutja Makgi''),
      (''W Shaped Block'', ''San Makgi''),
      (''Double Forearm Pushing Block'', ''Doo Palmok Mireo Makgi''),
      (''Grab (Opponent's Head)'', ''Meori Japgi''),
      (''Grab to Shoulders'', ''Eokae Japgi''),
      (''Release Move'', ''Nohgi''),
      (''Posture Move'', ''Jasei Dongjak''),
      (''Flying Side Piercing Kick / Knife Hand Guarding Block'', ''Twimyo Yop Cha Jirugi/Sonkal Daebi Makgi''),
      (''Back Fist Strike / Outer Forearm Low Block'', ''Dung Joomuk Taerigi/Bakat Palmok Najunde Makgi''),
      (''Front Outer Forearm Block / Back Fist Side Strike'', ''Ap Bakat Palmok Makgi/Dung Joomuk Yop Taerigi''),
      (''Inner Forearm Block / Outer Forearm Block'', ''An Palmok Makgi/Bakat Palmok Makgi''),
      (''Jump 360 to Knife Hand Guarding Block'', ''360 Twimyo Sonkal Daebi Makgi''),
      (''Side Elbow Thrust'', ''Yop Palkup Taerigi'')]"

text \<open>One entry of \<^verbatim>\<open>file_corrections\<close>.\<close>

record korean_correction =
  kc_pattern :: json
  kc_move :: json
  kc_english_technique :: json
  kc_old_korean :: json
  kc_new_korean :: string

text \<open>
  \<^verbatim>\<open>english_technique in self.korean_mapping\<close> and the value found: the keys of the table
  are strings, a list or a \<^verbatim>\<open>dict\<close> cannot be hashed, any other value is no key.
\<close>

definition lookup_technique :: "(string \<times> string) list \<Rightarrow> json \<Rightarrow> py_error + string option" where
  "lookup_technique mapping english_technique =
     (case english_technique of
        JStr s \<Rightarrow> Inr (map_of mapping s)
      | JArr _ \<Rightarrow> Inl TypeError
      | JObj _ \<Rightarrow> Inl TypeError
      | _ \<Rightarrow> Inr None)"

text \<open>
  The body of the loop over the moves of a pattern. The state is \<^verbatim>\<open>corrections_made\<close> and
  \<^verbatim>\<open>file_corrections\<close>; \<^verbatim>\<open>move.get\<close> raises on what is no \<^verbatim>\<open>dict\<close>.
\<close>

definition correct_move ::
    "(string \<times> string) list \<Rightarrow> json \<Rightarrow> bool \<times> korean_correction list \<Rightarrow> json
      \<Rightarrow> py_error + (bool \<times> korean_correction list) \<times> json" where
  "correct_move mapping pattern_name st move =
     (case move of
        JObj d \<Rightarrow>
          (let move_number = dict_get d ''move_number'' (JNum 0);
               english_technique = dict_get d ''technique'' (JStr '''');
               current_korean = dict_get d ''korean_technique'' (JStr '''')
           in (case lookup_technique mapping english_technique of
                 Inl e \<Rightarrow> Inl e
               | Inr None \<Rightarrow> Inr (st, move)
               | Inr (Some correct_korean) \<Rightarrow>
                   if current_korean \<noteq> JStr correct_korean
                   then Inr ((True,
                              snd st @ [\<lparr>kc_pattern = pattern_name, kc_move = move_number,
                                         kc_english_technique = english_technique,
                                         kc_old_korean = current_korean,
                                         kc_new_korean = correct_korean\<rparr>]),
                             JObj (dict_set ''korean_technique'' (JStr correct_korean) d))
                   else Inr (st, move)))
      | _ \<Rightarrow> Inl AttributeError)"

text \<open>
  A loop over \<^verbatim>\<open>owner.get(key, [])\<close> that changes the elements in place: without the key
  there is nothing to visit and the owner stays as it is.
\<close>

definition for_each_under ::
    "string \<Rightarrow> ('s \<Rightarrow> json \<Rightarrow> py_error + 's \<times> json) \<Rightarrow> 's \<Rightarrow> (string \<times> json) list
      \<Rightarrow> py_error + 's \<times> (string \<times> json) list" where
  "for_each_under key body st d =
     (case map_of d key of
        None \<Rightarrow> Inr (st, d)
      | Some container \<Rightarrow>
          (case py_iter container of
             Inl e \<Rightarrow> Inl e
           | Inr items \<Rightarrow>
               (case for_each body st items of
                  Inl e \<Rightarrow> Inl e
                | Inr (st', items') \<Rightarrow> Inr (st', dict_set key (put_back container items') d))))"

definition correct_pattern ::
    "(string \<times> string) list \<Rightarrow> bool \<times> korean_correction list \<Rightarrow> json
      \<Rightarrow> py_error + (bool \<times> korean_correction list) \<times> json" where
  "correct_pattern mapping st pattern =
     (case pattern of
        JObj d \<Rightarrow>
          (let pattern_name = dict_get d ''name'' (JStr ''Unknown'')
           in (case for_each_under ''moves'' (correct_move mapping pattern_name) st d of
                 Inl e \<Rightarrow> Inl e
               | Inr (st', d') \<Rightarrow> Inr (st', JObj d')))
      | _ \<Rightarrow> Inl AttributeError)"

definition correct_document ::
    "(string \<times> string) list \<Rightarrow> json \<Rightarrow> py_error + (bool \<times> korean_correction list) \<times> json" where
  "correct_document mapping data =
     (case data of
        JObj d \<Rightarrow>
          (case for_each_under ''patterns'' (correct_pattern mapping) (False, []) d of
             Inl e \<Rightarrow> Inl e
           | Inr (st', d') \<Rightarrow> Inr (st', JObj d'))
      | _ \<Rightarrow> Inl AttributeError)"

text \<open>
  \<^verbatim>\<open>correct_korean_romanizations\<close>: every exception is caught and gives \<^verbatim>\<open>False\<close>; the
  file is written, and the corrections are kept, only when a correction was made.
\<close>

record korean_corrector =
  corrections_applied :: "korean_correction list"

definition correct_korean_romanizations ::
    "(string \<times> string) list \<Rightarrow> korean_corrector \<times> store \<Rightarrow> string
      \<Rightarrow> (korean_corrector \<times> store) \<times> bool" where
  "correct_korean_romanizations mapping cs pattern_file_path =
     (case contents (snd cs) pattern_file_path of
        None \<Rightarrow> (cs, False)
      | Some data \<Rightarrow>
          (case correct_document mapping data of
             Inl e \<Rightarrow> (cs, False)
           | Inr ((corrections_made, file_corrections), data') \<Rightarrow>
               if corrections_made
               then (((fst cs)\<lparr>corrections_applied := corrections_applied (fst cs) @ file_corrections\<rparr>,
                      write_file pattern_file_path data' (snd cs)), True)
               else (cs, False)))"

section \<open>The file pass of fix-title-case.py\<close>






section \<open>The pattern corrector of chon\_ji\_dan\_gun\_corrections.py\<close>

text \<open>One entry of \<^verbatim>\<open>file_corrections\<close>.\<close>

record correction_entry =
  ce_move :: json
  ce_field :: string
  ce_old :: json
  ce_new :: json











section \<open>The file pass of update\_patterns\_from\_csv.py\<close>

text \<open>
  \<^verbatim>\<open>str\<close> of a move number inside the f-string of the correction key. The text of a list
  or a \<^verbatim>\<open>dict\<close> is not modelled: it is the parameter \<open>container_repr\<close>.
\<close>

function nat_to_str :: "nat \<Rightarrow> string" where
  "nat_to_str n =
     (if n < 10 then [''0123456789'' ! n]
      else nat_to_str (n div 10) @ [''0123456789'' ! (n mod 10)])"
  by pat_completeness auto
termination
  by (relation "measure id") auto

declare nat_to_str.simps [simp del]

definition int_to_str :: "int \<Rightarrow> string" where
  "int_to_str i = (if i < 0 then ''-'' @ nat_to_str (nat (- i)) else nat_to_str (nat i))"

definition py_str :: "(json \<Rightarrow> string) \<Rightarrow> json \<Rightarrow> string" where
  "py_str container_repr x =
     (case x of
        JNull \<Rightarrow> ''None''
      | JBool b \<Rightarrow> (if b then ''True'' else ''False'')
      | JNum n \<Rightarrow> int_to_str n
      | JStr s \<Rightarrow> s
      | _ \<Rightarrow> container_repr x)"


text \<open>A printed line: the header of a corrected move, or one changed field.\<close>

datatype report_line = MoveLine json | FieldLine string json string

text \<open>The five fields of a correction, in the order in which they are stored and compared.\<close>

definition correction_fields :: "correction \<Rightarrow> (string \<times> string) list" where
  "correction_fields c =
     [(''direction'', direction c), (''movement'', movement c), (''stance'', stance c),
      (''technique'', technique c), (''target'', target c)]"

text \<open>
  The body of the loop over the moves of the pattern. The state is \<^verbatim>\<open>updates_count\<close> and
  the lines printed; \<open>corrections\<close> is the \<^verbatim>\<open>dict\<close> of the corrections of the pattern.
\<close>

definition update_move ::
    "(json \<Rightarrow> string) \<Rightarrow> string \<Rightarrow> (string \<Rightarrow> correction option) \<Rightarrow> nat \<times> report_line list \<Rightarrow> json
      \<Rightarrow> py_error + (nat \<times> report_line list) \<times> json" where
  "update_move container_repr pattern_name corrections st move =
     (case py_index move ''move_number'' of
        Inl e \<Rightarrow> Inl e
      | Inr move_number \<Rightarrow>
          (let correction_key = pattern_name @ ''_'' @ py_str container_repr move_number
           in (case corrections correction_key of
                 None \<Rightarrow> Inr (st, move)
               | Some c \<Rightarrow>
                   (case move of
                      JObj d \<Rightarrow>
                        (let corr = standardize_values c;
                             old_values = (\<lambda>field. dict_get d field (JStr []));
                             d' = dict_set ''target'' (JStr (target corr))
                                   (dict_set ''technique'' (JStr (technique corr))
                                     (dict_set ''stance'' (JStr (stance corr))
                                       (dict_set ''movement'' (JStr (movement corr))
                                         (dict_set ''direction'' (JStr (direction corr)) d))));
                             printed = MoveLine move_number #
                               concat (map (\<lambda>(field, new).
                                              if old_values field \<noteq> JStr new
                                              then [FieldLine field (old_values field) new] else [])
                                        (correction_fields corr))
                         in Inr ((fst st + 1, snd st @ printed), JObj d'))
                    | _ \<Rightarrow> Inl TypeError))))"





definition changes_only :: "correction_entry list \<Rightarrow> bool" where
  "changes_only entries = list_all (\<lambda>e. ce_old e \<noteq> ce_new e) entries"

text \<open>
  A token keeps its parentheses in order when, if it holds both an opening and a closing
  parenthesis, the first opening one stands before the first closing one. These are the
  tokens on which the slices \<^verbatim>\<open>word[:word.index('(')]\<close>,
  \<^verbatim>\<open>word[word.index('(')+1:word.index(')')]\<close> and \<^verbatim>\<open>word[word.index(')')+1:]\<close> of
  \<^verbatim>\<open>to_title_case\<close> cut the token into disjoint parts.
\<close>

definition paren_ordered :: "string \<Rightarrow> bool" where
  "paren_ordered word =
     (CHR ''('' \<in> set word \<and> CHR '')'' \<in> set word
        \<longrightarrow> index_of CHR ''('' word < index_of CHR '')'' word)"

text \<open>
  The terminology documents on which a second run of the title-case pass finds nothing
  to do: every \<^verbatim>\<open>english\<close> and \<^verbatim>\<open>romanised\<close> value of a term that is a string is ASCII
  text whose tokens keep their parentheses in order.
\<close>

definition title_safe :: "json \<Rightarrow> bool" where
  "title_safe v =
     (case v of JStr s \<Rightarrow> list_all is_ascii s \<and> list_all paren_ordered (split_ws s) | _ \<Rightarrow> True)"

definition term_safe :: "json \<Rightarrow> bool" where
  "term_safe x =
     (case x of
        JObj d \<Rightarrow> title_safe (dict_get d ''english'' JNull) \<and> title_safe (dict_get d ''romanised'' JNull)
      | _ \<Rightarrow> True)"

definition terminology_safe :: "json \<Rightarrow> bool" where
  "terminology_safe data =
     (case data of
        JObj d \<Rightarrow>
          (case map_of d ''terminology'' of Some (JArr terms) \<Rightarrow> list_all term_safe terms | _ \<Rightarrow> True)
      | _ \<Rightarrow> True)"

text \<open>
  The pattern documents on which a second run of the pattern corrector finds nothing to
  do: wherever a stance starts with \<^verbatim>\<open>Left\<close> or \<^verbatim>\<open>Right\<close>, what is left of it once all
  these words are removed does not start with one of them again.
\<close>

definition stance_settled :: "json \<Rightarrow> bool" where
  "stance_settled v =
     (case v of
        JStr s \<Rightarrow>
          (if startswith s ''Left '' \<or> startswith s ''Right ''
           then \<not> startswith (replace ''Right '' [] (replace ''Left '' [] s)) ''Left ''
                \<and> \<not> startswith (replace ''Right '' [] (replace ''Left '' [] s)) ''Right ''
           else True)
      | _ \<Rightarrow> True)"

definition move_settled :: "json \<Rightarrow> bool" where
  "move_settled move =
     (case move of JObj d \<Rightarrow> stance_settled (dict_get d ''stance'' (JStr [])) | _ \<Rightarrow> True)"

definition pattern_settled :: "json \<Rightarrow> bool" where
  "pattern_settled pattern =
     (case pattern of
        JObj d \<Rightarrow>
          (case map_of d ''moves'' of Some (JArr moves) \<Rightarrow> list_all move_settled moves | _ \<Rightarrow> True)
      | _ \<Rightarrow> True)"

definition document_settled :: "json \<Rightarrow> bool" where
  "document_settled data =
     (case data of
        JObj d \<Rightarrow>
          (case map_of d ''patterns'' of
             Some (JArr patterns) \<Rightarrow> list_all pattern_settled patterns
           | _ \<Rightarrow> True)
      | _ \<Rightarrow> True)"

text \<open>
  To state what \<^verbatim>\<open>update_pattern_file\<close> reports and stores: the correction of the table
  that applies to a move, which is the one under the key made of the pattern name and the
  move number; the fields of a correction whose standardized value differs from the value
  the move holds (the empty string when the move has no such field); the lines expected
  for a move, which are its header and one line for each of these fields; and the move
  with the five standardized values stored.
\<close>

definition correction_of ::
    "(json \<Rightarrow> string) \<Rightarrow> string \<Rightarrow> (string \<Rightarrow> correction option) \<Rightarrow> json \<Rightarrow> correction option" where
  "correction_of container_repr pattern_name corrections move =
     (case move of
        JObj d \<Rightarrow>
          (case map_of d ''move_number'' of
             Some move_number \<Rightarrow> corrections (pattern_name @ ''_'' @ py_str container_repr move_number)
           | None \<Rightarrow> None)
      | _ \<Rightarrow> None)"

definition changed_fields :: "(string \<times> json) list \<Rightarrow> correction \<Rightarrow> (string \<times> string) list" where
  "changed_fields d c =
     filter (\<lambda>(field, new). dict_get d field (JStr []) \<noteq> JStr new)
       (correction_fields (standardize_values c))"

definition move_lines ::
    "(json \<Rightarrow> string) \<Rightarrow> string \<Rightarrow> (string \<Rightarrow> correction option) \<Rightarrow> json \<Rightarrow> report_line list" where
  "move_lines container_repr pattern_name corrections move =
     (case move of
        JObj d \<Rightarrow>
          (case map_of d ''move_number'' of
             Some move_number \<Rightarrow>
               (case corrections (pattern_name @ ''_'' @ py_str container_repr move_number) of
                  Some c \<Rightarrow>
                    MoveLine move_number #
                      map (\<lambda>(field, new). FieldLine field (dict_get d field (JStr [])) new)
                        (changed_fields d c)
                | None \<Rightarrow> [])
           | None \<Rightarrow> [])
      | _ \<Rightarrow> [])"

definition store_fields :: "(string \<times> string) list \<Rightarrow> (string \<times> json) list \<Rightarrow> (string \<times> json) list" where
  "store_fields fs d = fold (\<lambda>(field, new). dict_set field (JStr new)) fs d"

definition corrected_move ::
    "(json \<Rightarrow> string) \<Rightarrow> string \<Rightarrow> (string \<Rightarrow> correction option) \<Rightarrow> json \<Rightarrow> json" where
  "corrected_move container_repr pattern_name corrections move =
     (case move of
        JObj d \<Rightarrow>
          (case correction_of container_repr pattern_name corrections move of
             Some c \<Rightarrow> JObj (store_fields (correction_fields (standardize_values c)) d)
           | None \<Rightarrow> move)
      | _ \<Rightarrow> move)"


section \<open>Facts about the string functions\<close>

lemmas char_defs = code_point_def is_upper_def is_lower_def to_lower_def to_upper_def
  is_space_def is_digit_def is_word_def

lemma contains_single: "contains [c] s = (c \<in> set s)"
  by (induction s) (auto simp: startswith_def)

lemma endswith_single: "endswith s [c] \<Longrightarrow> c \<in> set s"
  by (cases s rule: rev_cases) (auto simp: endswith_def)

lemma lower_Nil [simp]: "lower [] = []"
  by (simp add: lower_def)

section \<open>The casings of the normalizer\<close>

lemma to_title_case_words: "to_title_case ''low outer forearm block'' = ''Low Outer Forearm Block''"
  by code_simp

lemma to_title_case_hyphen: "to_title_case ''3-step sparring'' = ''3-Step Sparring''"
  by code_simp

lemma to_title_case_one_token_parenthetical: "to_title_case ''grab(Opponent)X y'' = ''Grab(opponent)X Y''"
  by code_simp

text \<open>
  C2. The normalizer gives \<^verbatim>\<open>"Low Outer Forearm Block"\<close> and \<^verbatim>\<open>"3-Step Sparring"\<close> as
  specified, but it splits the text at whitespace before it looks for parentheses, so
  in \<^verbatim>\<open>"grab (opponent's head)"\<close> no token holds both parentheses: the token
  \<^verbatim>\<open>"head)"\<close> is capitalized like any other word and the result is
  \<^verbatim>\<open>"Grab (opponent's Head)"\<close>, not \<^verbatim>\<open>"Grab (opponent's head)"\<close>.
\<close>

theorem to_title_case_parenthetical_split:
  "to_title_case ''grab (opponent's head)'' = ''Grab (opponent's Head)''"
  by code_simp

section \<open>The decomposer\<close>

lemma lower_null: "lower ''null'' = ''null''"
  by (simp add: lower_def char_defs)

lemma standardize_target_str:
  "standardize_target (JStr tgt) = Inr (JStr (canonical_target tgt))"
proof (cases "tgt = [] \<or> tgt = ''null''")
  case True
  then show ?thesis
    by (auto simp: standardize_target_def canonical_target_def lower_null)
next
  case False
  then show ?thesis
    by (simp add: standardize_target_def canonical_target_def Let_def)
qed

lemma split_technique_target_str:
  "split_technique_target (JStr tech) (JStr tgt) move_num pattern_name =
     Inr (case map_of split_table tech of
            Some (bare, area) \<Rightarrow> (JStr bare, JStr area)
          | None \<Rightarrow> (JStr tech, JStr (canonical_target tgt)))"
  by (simp add: split_technique_target_def split_table_def standardize_target_str)

text \<open>
  C4. On two strings, the decomposer returns the pair of the split table when the
  technique is one of its compound names, whatever the incoming target is, and otherwise
  the technique as it is with the target canonicalized without regard to case: a target
  written in any mix of upper and lower case is mapped like its lower-case form, so
  \<^verbatim>\<open>"MIDDLE Section"\<close> and \<^verbatim>\<open>"Solar Plexus"\<close> give \<^verbatim>\<open>"Middle Section"\<close>,
  \<^verbatim>\<open>"LOWER SECTION"\<close> and \<^verbatim>\<open>"Low section"\<close> give \<^verbatim>\<open>"Low Section"\<close>, and \<^verbatim>\<open>"UPPER section"\<close>,
  \<^verbatim>\<open>"high SECTION"\<close> and \<^verbatim>\<open>"Head Level"\<close> give \<^verbatim>\<open>"High Section"\<close>. Any other target stays as it
  is, in its own case, like the empty target and \<^verbatim>\<open>"null"\<close>; the lookup of the technique
  in the table is verbatim, so a compound name in another case is not split. The two
  examples of the specification hold.
\<close>

theorem decompose_table_or_canonical_target:
  "split_technique_target (JStr tech) (JStr tgt) move_num pattern_name =
     Inr (case map_of split_table tech of
            Some (bare, area) \<Rightarrow> (JStr bare, JStr area)
          | None \<Rightarrow> (JStr tech, JStr (canonical_target tgt)))
   \<and> split_technique_target (JStr ''Low Outer Forearm Block'') (JStr []) move_num pattern_name
       = Inr (JStr ''Outer Forearm Block'', JStr ''Low Section'')
   \<and> split_technique_target (JStr ''Front Kick'') (JStr ''middle section'') move_num pattern_name
       = Inr (JStr ''Front Kick'', JStr ''Middle Section'')
   \<and> canonical_target [] = [] \<and> canonical_target ''null'' = ''null''
   \<and> split_technique_target (JStr ''Front Kick'') (JStr ''MIDDLE Section'') move_num pattern_name
       = Inr (JStr ''Front Kick'', JStr ''Middle Section'')
   \<and> split_technique_target (JStr ''Front Kick'') (JStr ''Solar Plexus'') move_num pattern_name
       = Inr (JStr ''Front Kick'', JStr ''Middle Section'')
   \<and> split_technique_target (JStr ''Front Kick'') (JStr ''LOWER SECTION'') move_num pattern_name
       = Inr (JStr ''Front Kick'', JStr ''Low Section'')
   \<and> split_technique_target (JStr ''Front Kick'') (JStr ''Low section'') move_num pattern_name
       = Inr (JStr ''Front Kick'', JStr ''Low Section'')
   \<and> split_technique_target (JStr ''Front Kick'') (JStr ''UPPER section'') move_num pattern_name
       = Inr (JStr ''Front Kick'', JStr ''High Section'')
   \<and> split_technique_target (JStr ''Front Kick'') (JStr ''high SECTION'') move_num pattern_name
       = Inr (JStr ''Front Kick'', JStr ''High Section'')
   \<and> split_technique_target (JStr ''Front Kick'') (JStr ''Head Level'') move_num pattern_name
       = Inr (JStr ''Front Kick'', JStr ''High Section'')
   \<and> split_technique_target (JStr ''Front Kick'') (JStr ''Knee Level'') move_num pattern_name
       = Inr (JStr ''Front Kick'', JStr ''Knee Level'')
   \<and> split_technique_target (JStr ''LOW OUTER FOREARM BLOCK'') (JStr ''Philtrum'') move_num pattern_name
       = Inr (JStr ''LOW OUTER FOREARM BLOCK'', JStr ''Philtrum'')"
proof -
  have c: "canonical_target ''middle section'' = ''Middle Section''"
    "canonical_target ''MIDDLE Section'' = ''Middle Section''"
    "canonical_target ''Solar Plexus'' = ''Middle Section''"
    "canonical_target ''LOWER SECTION'' = ''Low Section''"
    "canonical_target ''Low section'' = ''Low Section''"
    "canonical_target ''UPPER section'' = ''High Section''"
    "canonical_target ''high SECTION'' = ''High Section''"
    "canonical_target ''Head Level'' = ''High Section''"
    "canonical_target ''Knee Level'' = ''Knee Level''"
    "canonical_target ''Philtrum'' = ''Philtrum''"
    by (simp_all add: canonical_target_def lower_def char_defs)
  have n: "canonical_target [] = []" "canonical_target ''null'' = ''null''"
    by (simp_all add: canonical_target_def lower_null)
  show ?thesis
    by (simp add: split_technique_target_str split_table_def c n)
qed

section \<open>Value standardization of the correction applier\<close>

lemma degree_not_digit: "\<not> is_digit degree"
  by (simp add: degree_def char_defs)

lemma isdigit_no_degree: "isdigit s \<Longrightarrow> degree \<notin> set s"
  by (auto simp: isdigit_def list_all_iff degree_not_digit)

lemma minus_not_digit: "\<not> isdigit ''-''"
  by (simp add: isdigit_def char_defs)

lemma standardize_values_fields:
  "direction (standardize_values c) = direction c"
  "movement (standardize_values c) = standardize_movement (movement c)"
  "stance (standardize_values c) = standardize_stance (stance c)"
  "technique (standardize_values c) = strip (technique c)"
  "target (standardize_values c) = target c"
  by (simp_all add: standardize_values_def Let_def)

lemma movement_digits:
  assumes "isdigit mv" and "mv \<noteq> ''90''"
  shows "standardize_movement mv = mv @ [degree]"
proof -
  have "mv \<noteq> ''-''" using assms(1) minus_not_digit by auto
  moreover have "\<not> endswith mv [degree]"
    using endswith_single isdigit_no_degree assms(1) by blast
  ultimately show ?thesis using assms by (simp add: standardize_movement_def)
qed

lemma movement_90: "standardize_movement ''90'' = ''Left 90'' @ [degree]"
  by (simp add: standardize_movement_def isdigit_def char_defs)

lemma movement_marked:
  assumes "degree \<in> set mv \<or> mv = ''-''"
  shows "standardize_movement mv = mv"
proof (cases "mv = ''-''")
  case True
  then show ?thesis by (simp add: standardize_movement_def)
next
  case False
  with assms have d: "degree \<in> set mv" by simp
  then have "\<not> isdigit mv" using isdigit_no_degree by blast
  with d False show ?thesis by (simp add: standardize_movement_def contains_single)
qed

lemma stance_rule:
  "standardize_stance st =
     (if contains ''L Stance'' st \<and> CHR ''-'' \<notin> set st
      then replace ''L Stance'' ''L-stance'' st else st)"
  by (simp add: standardize_stance_def contains_single)

text \<open>
  C5, as the claim states it, fails: \<^verbatim>\<open>"Walking Stance"\<close> is a qualifier and the word
  \<^verbatim>\<open>"Stance"\<close> without a hyphen, and \<^verbatim>\<open>standardize_values\<close> keeps it as it is.
\<close>

theorem walking_stance_not_hyphenated:
  "stance (standardize_values
     \<lparr>direction = ''N'', movement = ''-'', stance = ''Walking Stance'',
      technique = ''Low Block'', target = ''''\<rparr>) = ''Walking Stance''"
  by (simp add: standardize_values_fields standardize_stance_def startswith_def)

text \<open>
  C5, amended. A movement of digits only gets the degree mark, the bare \<^verbatim>\<open>"90"\<close> becomes
  \<^verbatim>\<open>"Left 90"\<close> with the degree mark, a movement that holds a degree mark and the marker
  \<^verbatim>\<open>"-"\<close> pass unchanged. A stance that holds \<^verbatim>\<open>"L Stance"\<close> and no hyphen has every
  \<^verbatim>\<open>"L Stance"\<close> replaced by \<^verbatim>\<open>"L-stance"\<close>; every other stance passes unchanged.
\<close>

theorem standardize_values_rules:
  "(isdigit (movement c) \<and> movement c \<noteq> ''90''
      \<longrightarrow> movement (standardize_values c) = movement c @ [degree])
   \<and> (movement c = ''90'' \<longrightarrow> movement (standardize_values c) = ''Left 90'' @ [degree])
   \<and> (degree \<in> set (movement c) \<or> movement c = ''-''
      \<longrightarrow> movement (standardize_values c) = movement c)
   \<and> stance (standardize_values c) =
       (if contains ''L Stance'' (stance c) \<and> CHR ''-'' \<notin> set (stance c)
        then replace ''L Stance'' ''L-stance'' (stance c) else stance c)"
  using movement_digits [of "movement c"] movement_90 movement_marked [of "movement c"]
  by (simp add: standardize_values_fields stance_rule)

theorem standardize_values_rules_witness:
  "movement (standardize_values
      \<lparr>direction = ''N'', movement = ''180'', stance = ''Left L Stance'',
       technique = ''Low Block'', target = ''''\<rparr>) = ''180'' @ [degree]
   \<and> stance (standardize_values
      \<lparr>direction = ''N'', movement = ''180'', stance = ''Left L Stance'',
       technique = ''Low Block'', target = ''''\<rparr>) = ''Left L-stance''
   \<and> movement (standardize_values
      \<lparr>direction = ''N'', movement = ''90'', stance = ''Sitting Stance'',
       technique = ''Low Block'', target = ''''\<rparr>) = ''Left 90'' @ [degree]
   \<and> stance (standardize_values
      \<lparr>direction = ''N'', movement = ''90'', stance = ''Sitting Stance'',
       technique = ''Low Block'', target = ''''\<rparr>) = ''Sitting Stance''
   \<and> movement (standardize_values
      \<lparr>direction = ''N'', movement = ''Right 90'' @ [degree], stance = ''L-stance'',
       technique = ''Low Block'', target = ''''\<rparr>) = ''Right 90'' @ [degree]"
  using
    standardize_values_rules [of "\<lparr>direction = ''N'', movement = ''180'', stance = ''Left L Stance'',
       technique = ''Low Block'', target = ''''\<rparr>"]
    standardize_values_rules [of "\<lparr>direction = ''N'', movement = ''90'', stance = ''Sitting Stance'',
       technique = ''Low Block'', target = ''''\<rparr>"]
    standardize_values_rules [of "\<lparr>direction = ''N'', movement = ''Right 90'' @ [degree], stance = ''L-stance'',
       technique = ''Low Block'', target = ''''\<rparr>"]
  by (simp add: isdigit_def char_defs startswith_def)

section \<open>The two loops of the key renaming\<close>

lemma truthy_nonempty [simp]: "(truthy v \<and> v \<noteq> JStr []) = truthy v"
  by (cases v) auto

lemma map_of_dict_remove [simp]:
  "map_of (dict_remove k d) k' = (if k' = k then None else map_of d k')"
  by (induction d) (auto simp: dict_remove_def)

lemma map_of_dict_set [simp]:
  "map_of (dict_set k v d) k' = (if k' = k then Some v else map_of d k')"
  by (induction d) auto

lemma has_key_iff: "has_key d k = (k \<in> fst ` set d)"
  by (simp add: has_key_def map_of_eq_None_iff)

lemma filter_dict_set:
  "\<not> P k \<Longrightarrow> filter (\<lambda>p. P (fst p)) (dict_set k v d) = filter (\<lambda>p. P (fst p)) d"
  by (induction d) auto

lemma filter_dict_remove:
  "\<not> P k \<Longrightarrow> filter (\<lambda>p. P (fst p)) (dict_remove k d) = filter (\<lambda>p. P (fst p)) d"
  by (induction d) (auto simp: dict_remove_def)

lemma pending_Nil [simp]: "pending obj [] = []"
  by (simp add: pending_def)

lemma pending_Cons:
  "pending obj ((old, new) # m) =
     (case map_of obj old of Some v \<Rightarrow> if truthy v then [(old, new, v)] else [] | None \<Rightarrow> [])
     @ pending obj m"
  by (simp add: pending_def)

lemma pending_dict_remove:
  "map_of obj k = Some v \<Longrightarrow> \<not> truthy v \<Longrightarrow> pending (dict_remove k obj) m = pending obj m"
  by (induction m) (auto simp: pending_def split: option.splits)

lemma dead_Nil [simp]: "dead obj [] = {}"
  by (simp add: dead_def)

lemma collect_renames_eq:
  "\<exists>st'. collect_renames st ctx m obj ktr =
     (st', filter (\<lambda>p. fst p \<notin> dead obj m) obj, ktr @ pending obj m)"
proof (induction m arbitrary: st obj ktr)
  case Nil
  then show ?case by simp
next
  case (Cons a m)
  obtain old new where a: "a = (old, new)" by (cases a)
  show ?case
  proof (cases "map_of obj old")
    case None
    then have "dead obj (a # m) = dead obj m"
      by (auto simp: dead_def a)
    with None Cons.IH [of st obj ktr] show ?thesis
      by (simp add: a pending_Cons)
  next
    case (Some v)
    show ?thesis
    proof (cases "truthy v")
      case True
      with Some have "dead obj (a # m) = dead obj m"
        by (auto simp: dead_def a)
      moreover from True have "v \<noteq> JStr []" by auto
      ultimately show ?thesis
        using Some True Cons.IH [of st obj "ktr @ [(old, new, v)]"]
        by (simp add: a pending_Cons)
    next
      case False
      let ?obj = "dict_remove old obj"
      have d: "dead obj (a # m) = insert old (dead ?obj m)"
        using Some False by (auto simp: dead_def a)
      have "filter (\<lambda>p. fst p \<notin> D) (dict_remove old obj) = filter (\<lambda>p. fst p \<notin> insert old D) obj" for D
        by (induction obj) (auto simp: dict_remove_def)
      then have f: "filter (\<lambda>p. fst p \<notin> dead ?obj m) ?obj = filter (\<lambda>p. fst p \<notin> dead obj (a # m)) obj"
        by (simp add: d)
      from Some False f pending_dict_remove [OF Some False, of m]
        Cons.IH [of "st\<lparr>empty_fields_removed := empty_fields_removed st + 1,
                     changes_log := (if verbose st then changes_log st @ [RemovedEmpty ctx old]
                                     else changes_log st)\<rparr>" ?obj ktr]
      show ?thesis
        by (simp add: a pending_Cons)
    qed
  qed
qed


lemma dict_del_eq: "dict_del k d = (if k \<in> fst ` set d then Inr (dict_remove k d) else Inl KeyError)"
  by (simp add: dict_del_def has_key_iff)

lemma keys_dict_set [simp]: "fst ` set (dict_set k v d) = insert k (fst ` set d)"
  by (induction d) auto

lemma keys_dict_remove [simp]: "fst ` set (dict_remove k d) = fst ` set d - {k}"
  by (auto simp: dict_remove_def)

text \<open>the second loop never fails on distinct keys that are there\<close>

lemma apply_renames_total:
  "distinct (map fst ktr) \<Longrightarrow> fst ` set ktr \<subseteq> fst ` set obj \<Longrightarrow>
   \<exists>st' obj'. apply_renames st ctx ktr obj = Inr (st', obj')"
proof (induction ktr arbitrary: st obj)
  case Nil
  then show ?case by simp
next
  case (Cons a ktr)
  obtain old new v where a: "a = (old, new, v)" by (cases a)
  show ?case
  proof (cases "old = new")
    case True
    with Cons.prems Cons.IH [of obj st] show ?thesis by (simp add: a)
  next
    case False
    let ?obj = "dict_remove old (dict_set new v obj)"
    from Cons.prems have "fst ` set ktr \<subseteq> fst ` set ?obj"
      by (force simp: a)
    with Cons.prems Cons.IH [of ?obj] False show ?thesis
      by (simp add: a dict_del_eq)
  qed
qed

lemma apply_renames_frame:
  "apply_renames st ctx ktr obj = Inr (st', obj') \<Longrightarrow>
   \<forall>e \<in> set ktr. \<not> P (fst e) \<and> \<not> P (fst (snd e)) \<Longrightarrow>
   filter (\<lambda>p. P (fst p)) obj' = filter (\<lambda>p. P (fst p)) obj"
proof (induction ktr arbitrary: st obj)
  case Nil
  then show ?case by simp
next
  case (Cons a ktr)
  obtain old new v where a: "a = (old, new, v)" by (cases a)
  show ?case
  proof (cases "old = new")
    case True
    with Cons show ?thesis by (simp add: a)
  next
    case False
    let ?obj = "dict_remove old (dict_set new v obj)"
    from Cons.prems(2) have np: "\<not> P old" "\<not> P new" by (simp_all add: a)
    from Cons.prems(1) False obtain st1 where
      "apply_renames st1 ctx ktr ?obj = Inr (st', obj')"
      by (auto simp: a dict_del_eq split: if_splits)
    with Cons.IH [of st1 ?obj] Cons.prems(2)
    have "filter (\<lambda>p. P (fst p)) obj' = filter (\<lambda>p. P (fst p)) ?obj" by simp
    with np show ?thesis by (simp add: filter_dict_remove filter_dict_set)
  qed
qed

lemma pending_sources: "e \<in> set (pending obj m) \<Longrightarrow>
   (fst e, fst (snd e)) \<in> set m \<and> map_of obj (fst e) = Some (snd (snd e)) \<and> truthy (snd (snd e))"
  by (induction m) (auto simp: pending_Cons split: option.splits if_splits)

lemma map_fst_pending: "map fst (pending obj m) = filter (\<lambda>k. \<exists>v. map_of obj k = Some v \<and> truthy v) (map fst m)"
  by (induction m) (auto simp: pending_Cons split: option.splits)

lemma rename_keys_frame:
  assumes "rename_keys st obj m ctx = Inr (st', obj')"
  shows "filter (\<lambda>p. fst p \<notin> fst ` set m \<union> snd ` set m) obj'
       = filter (\<lambda>p. fst p \<notin> fst ` set m \<union> snd ` set m) obj"
proof -
  let ?P = "\<lambda>k. k \<notin> fst ` set m \<union> snd ` set m"
  obtain st1 where c: "collect_renames st ctx m obj [] =
     (st1, filter (\<lambda>p. fst p \<notin> dead obj m) obj, [] @ pending obj m)"
    using collect_renames_eq by blast
  with assms have a: "apply_renames st1 ctx (pending obj m) (filter (\<lambda>p. fst p \<notin> dead obj m) obj) = Inr (st', obj')"
    by (simp add: rename_keys_def)
  have "\<forall>e \<in> set (pending obj m). \<not> ?P (fst e) \<and> \<not> ?P (fst (snd e))"
    using pending_sources by (force simp: image_iff)
  from apply_renames_frame [OF a, of ?P, OF this]
  have "filter (\<lambda>p. ?P (fst p)) obj' = filter (\<lambda>p. ?P (fst p)) (filter (\<lambda>p. fst p \<notin> dead obj m) obj)" .
  also have "\<dots> = filter (\<lambda>p. ?P (fst p)) obj"
    unfolding filter_filter by (rule filter_cong) (auto simp: dead_def)
  finally show ?thesis .
qed


lemma pending_live:
  "fst ` set (pending obj m) = {k \<in> fst ` set m. \<exists>v. map_of obj k = Some v \<and> truthy v}"
proof -
  have "fst ` set (pending obj m) = set (map fst (pending obj m))" by simp
  also have "\<dots> = {k \<in> fst ` set m. \<exists>v. map_of obj k = Some v \<and> truthy v}"
    unfolding map_fst_pending by auto
  finally show ?thesis .
qed

lemma pending_target: "e \<in> set (pending obj m) \<Longrightarrow> fst (snd e) \<in> snd ` set m"
  using pending_sources [of e obj m] by (metis image_eqI snd_conv)

lemma rename_keys_unfold:
  "\<exists>st1. rename_keys st obj m ctx =
     apply_renames st1 ctx (pending obj m) (filter (\<lambda>p. fst p \<notin> dead obj m) obj)"
  using collect_renames_eq [of st ctx m obj "[]"] by (auto simp: rename_keys_def)

lemma map_of_filter_keys:
  "map_of (filter (\<lambda>p. fst p \<notin> D) d) k = (if k \<in> D then None else map_of d k)"
  by (induction d) auto

lemma rename_keys_total:
  assumes "distinct (map fst m)"
  shows "\<exists>st' obj'. rename_keys st obj m ctx = Inr (st', obj')"
proof -
  let ?obj = "filter (\<lambda>p. fst p \<notin> dead obj m) obj"
  have "distinct (map fst (pending obj m))"
    using assms by (simp add: map_fst_pending)
  moreover have "fst ` set (pending obj m) \<subseteq> fst ` set ?obj"
  proof
    fix k assume "k \<in> fst ` set (pending obj m)"
    then obtain v where "map_of obj k = Some v" "truthy v"
      by (auto simp: pending_live)
    then have "k \<notin> dead obj m" by (simp add: dead_def)
    with \<open>map_of obj k = Some v\<close> have "map_of ?obj k = Some v"
      by (simp only: map_of_filter_keys if_False)
    then show "k \<in> fst ` set ?obj"
      by (metis map_of_eq_None_iff option.distinct(1))
  qed
  ultimately have "\<exists>st' obj'. apply_renames st1 ctx (pending obj m) ?obj = Inr (st', obj')" for st1
    by (rule apply_renames_total)
  then show ?thesis
    using rename_keys_unfold [of st obj m ctx] by auto
qed

text \<open>the object after the second loop, when no new name is an old name\<close>

lemma apply_renames_map_of:
  "apply_renames st ctx ktr obj = Inr (st', obj') \<Longrightarrow>
   \<forall>e \<in> set ktr. fst (snd e) \<notin> fst ` set ktr \<Longrightarrow>
   map_of obj' k =
     (if k \<in> fst ` set ktr then None
      else if renamed_to k ktr = [] then map_of obj k
      else Some (snd (snd (last (renamed_to k ktr)))))"
proof (induction ktr arbitrary: st obj)
  case Nil
  then show ?case by (simp add: renamed_to_def)
next
  case (Cons a ktr)
  obtain old new v where a: "a = (old, new, v)" by (cases a)
  from Cons.prems(2) have "new \<notin> fst ` set (a # ktr)"
    by (simp add: a)
  then have ne: "old \<noteq> new" and new: "new \<notin> fst ` set ktr"
    by (auto simp: a)
  from Cons.prems(2) have all: "\<forall>e \<in> set ktr. fst (snd e) \<notin> insert old (fst ` set ktr)"
    by (simp add: a)
  then have rest: "\<forall>e \<in> set ktr. fst (snd e) \<notin> fst ` set ktr"
    and nold: "\<forall>e \<in> set ktr. fst (snd e) \<noteq> old"
    by simp_all
  let ?obj = "dict_remove old (dict_set new v obj)"
  have "old \<in> fst ` set (dict_set new v obj) \<or> old \<notin> fst ` set (dict_set new v obj)" by blast
  with Cons.prems(1) ne obtain st1 where ap: "apply_renames st1 ctx ktr ?obj = Inr (st', obj')"
    by (simp add: a dict_del_eq split: if_splits)
  note ih = Cons.IH [OF ap rest]
  have fo: "renamed_to old ktr = []"
    using nold by (auto simp: filter_empty_conv renamed_to_def)
  have rt: "renamed_to k ((old, new, v) # ktr)
            = (if new = k then [(old, new, v)] else []) @ renamed_to k ktr"
    by (simp add: renamed_to_def)
  show ?case
  proof (cases "k = old")
    case True
    with ih fo show ?thesis by (simp add: a)
  next
    case False
    show ?thesis
    proof (cases "k \<in> fst ` set ktr")
      case True
      with ih show ?thesis by (simp add: a)
    next
      case nk: False
      with ih False show ?thesis by (auto simp: a rt)
    qed
  qed
qed

lemma rename_keys_sources_gone:
  assumes "rename_keys st obj m ctx = Inr (st', obj')"
    and "fst ` set m \<inter> snd ` set m = {}"
    and "k \<in> fst ` set m"
  shows "map_of obj' k = None"
proof -
  let ?obj = "filter (\<lambda>p. fst p \<notin> dead obj m) obj"
  obtain st1 where ap: "apply_renames st1 ctx (pending obj m) ?obj = Inr (st', obj')"
    using rename_keys_unfold [of st obj m ctx] assms(1) by (elim exE) simp
  have nc: "\<forall>e \<in> set (pending obj m). fst (snd e) \<notin> fst ` set (pending obj m)"
  proof
    fix e assume "e \<in> set (pending obj m)"
    then have "fst (snd e) \<in> snd ` set m" by (rule pending_target)
    with assms(2) show "fst (snd e) \<notin> fst ` set (pending obj m)"
      unfolding pending_live by blast
  qed
  have tk: "renamed_to k (pending obj m) = []"
  proof -
    have "\<forall>e \<in> set (pending obj m). fst (snd e) \<noteq> k"
    proof
      fix e assume "e \<in> set (pending obj m)"
      then have "fst (snd e) \<in> snd ` set m" by (rule pending_target)
      with assms(2,3) show "fst (snd e) \<noteq> k" by auto
    qed
    then show ?thesis by (auto simp: filter_empty_conv renamed_to_def)
  qed
  show ?thesis
  proof (cases "k \<in> fst ` set (pending obj m)")
    case True
    with apply_renames_map_of [OF ap nc, of k] show ?thesis by simp
  next
    case False
    with assms(3) have "map_of obj k = None \<or> k \<in> dead obj m"
      unfolding pending_live dead_def by blast
    then have "map_of ?obj k = None"
      by (auto simp only: map_of_filter_keys split: if_splits)
    with False tk apply_renames_map_of [OF ap nc, of k] show ?thesis by simp
  qed
qed

lemma collect_renames_none:
  "\<forall>k \<in> fst ` set m. map_of obj k = None \<Longrightarrow>
   collect_renames st ctx m obj ktr = (st, obj, ktr)"
  by (induction m) auto

lemma rename_keys_no_sources:
  "\<forall>k \<in> fst ` set m. map_of obj k = None \<Longrightarrow> rename_keys st obj m ctx = Inr (st, obj)"
  by (simp add: rename_keys_def collect_renames_none)

lemma rename_keys_idempotent:
  assumes "distinct (map fst m)" and "fst ` set m \<inter> snd ` set m = {}"
  shows "\<exists>st1 obj1. rename_keys st obj m ctx = Inr (st1, obj1)
           \<and> rename_keys st1 obj1 m ctx = Inr (st1, obj1)"
proof -
  obtain st1 obj1 where r: "rename_keys st obj m ctx = Inr (st1, obj1)"
    using rename_keys_total [OF assms(1)] by blast
  have "\<forall>k \<in> fst ` set m. map_of obj1 k = None"
  proof
    fix k assume "k \<in> fst ` set m"
    from rename_keys_sources_gone [OF r assms(2) this] show "map_of obj1 k = None" .
  qed
  then have "rename_keys st1 obj1 m ctx = Inr (st1, obj1)"
    by (rule rename_keys_no_sources)
  with r show ?thesis by blast
qed

lemma pending_append: "pending obj (m1 @ m2) = pending obj m1 @ pending obj m2"
  by (simp add: pending_def)

lemma rename_keys_map_of:
  assumes r: "rename_keys st obj m ctx = Inr (st', obj')"
    and nc: "fst ` set m \<inter> snd ` set m = {}"
  shows "map_of obj' k =
     (if k \<in> fst ` set m then None
      else if renamed_to k (pending obj m) = [] then map_of obj k
      else Some (snd (snd (last (renamed_to k (pending obj m))))))"
proof (cases "k \<in> fst ` set m")
  case True
  with rename_keys_sources_gone [OF r nc] show ?thesis by simp
next
  case False
  let ?obj = "filter (\<lambda>p. fst p \<notin> dead obj m) obj"
  obtain st1 where ap: "apply_renames st1 ctx (pending obj m) ?obj = Inr (st', obj')"
    using rename_keys_unfold [of st obj m ctx] r by (elim exE) simp
  have "\<forall>e \<in> set (pending obj m). fst (snd e) \<notin> fst ` set (pending obj m)"
  proof
    fix e assume "e \<in> set (pending obj m)"
    then have "fst (snd e) \<in> snd ` set m" by (rule pending_target)
    with nc show "fst (snd e) \<notin> fst ` set (pending obj m)"
      unfolding pending_live by blast
  qed
  note m = apply_renames_map_of [OF ap this, of k]
  from False have "k \<notin> fst ` set (pending obj m)"
    unfolding pending_live by blast
  moreover from False have "k \<notin> dead obj m"
    by (simp add: dead_def)
  then have "map_of ?obj k = map_of obj k"
    by (simp only: map_of_filter_keys if_False)
  ultimately show ?thesis using m False by simp
qed

lemma last_renamed_to:
  assumes "renamed_to k (pending obj m) \<noteq> []"
  shows "\<exists>src. (src, k) \<in> set m
            \<and> map_of obj src = Some (snd (snd (last (renamed_to k (pending obj m)))))
            \<and> truthy (snd (snd (last (renamed_to k (pending obj m)))))"
proof -
  let ?e = "last (renamed_to k (pending obj m))"
  have "?e \<in> set (renamed_to k (pending obj m))"
    using assms by (rule last_in_set)
  then have "?e \<in> set (pending obj m)" and "fst (snd ?e) = k"
    by (simp_all add: renamed_to_def)
  with pending_sources [of ?e obj m] show ?thesis by auto
qed

lemma rename_empty_source:
  assumes d: "distinct (map fst m)"
    and nc: "fst ` set m \<inter> snd ` set m = {}"
    and m: "(old, new) \<in> set m"
    and v: "map_of obj old = Some v" "\<not> truthy v"
  shows "\<exists>st' obj'. rename_keys st obj m ctx = Inr (st', obj')
           \<and> map_of obj' old = None
           \<and> (map_of obj' new = map_of obj new
                \<or> (\<exists>src w. (src, new) \<in> set m \<and> src \<noteq> old \<and> map_of obj src = Some w \<and> truthy w
                           \<and> map_of obj' new = Some w))
           \<and> (\<forall>k w. map_of obj' k = Some w \<and> \<not> truthy w
                   \<longrightarrow> map_of obj k = Some w \<and> k \<notin> fst ` set m)"
proof -
  obtain st' obj' where r: "rename_keys st obj m ctx = Inr (st', obj')"
    using rename_keys_total [OF d] by blast
  note mo = rename_keys_map_of [OF r nc]
  from m have os: "old \<in> fst ` set m" and "new \<in> snd ` set m" by force+
  with nc have ns: "new \<notin> fst ` set m" by blast
  have 1: "map_of obj' old = None" using mo [of old] os by simp
  have 2: "map_of obj' new = map_of obj new
           \<or> (\<exists>src w. (src, new) \<in> set m \<and> src \<noteq> old \<and> map_of obj src = Some w \<and> truthy w
                     \<and> map_of obj' new = Some w)"
  proof (cases "renamed_to new (pending obj m) = []")
    case True
    with mo [of new] ns show ?thesis by simp
  next
    case False
    let ?w = "snd (snd (last (renamed_to new (pending obj m))))"
    from last_renamed_to [OF False] obtain src where
      src: "(src, new) \<in> set m" "map_of obj src = Some ?w" "truthy ?w" by blast
    with v have "src \<noteq> old" by auto
    moreover from mo [of new] ns False have "map_of obj' new = Some ?w"
      by simp
    ultimately show ?thesis using src by blast
  qed
  have 3: "\<forall>k w. map_of obj' k = Some w \<and> \<not> truthy w
                   \<longrightarrow> map_of obj k = Some w \<and> k \<notin> fst ` set m"
  proof (intro allI impI)
    fix k w assume kw: "map_of obj' k = Some w \<and> \<not> truthy w"
    with mo [of k] have ks: "k \<notin> fst ` set m" by (auto split: if_splits)
    show "map_of obj k = Some w \<and> k \<notin> fst ` set m"
    proof (cases "renamed_to k (pending obj m) = []")
      case True
      with mo [of k] ks kw show ?thesis by simp
    next
      case False
      from last_renamed_to [OF False]
      have "truthy (snd (snd (last (renamed_to k (pending obj m)))))" by blast
      moreover from mo [of k] ks False
      have "map_of obj' k = Some (snd (snd (last (renamed_to k (pending obj m)))))"
        by simp
      ultimately show ?thesis using kw by simp
    qed
  qed
  from r 1 2 3 show ?thesis by blast
qed

lemma rename_onto_target:
  assumes d: "distinct (map fst m)"
    and nc: "fst ` set m \<inter> snd ` set m = {}"
    and m: "m = m1 @ (old, new) # m2"
    and v: "map_of obj old = Some v" "truthy v"
    and later: "\<forall>e \<in> set m2. snd e = new \<longrightarrow> (\<forall>w. map_of obj (fst e) = Some w \<longrightarrow> \<not> truthy w)"
  shows "\<exists>st' obj'. rename_keys st obj m ctx = Inr (st', obj')
           \<and> map_of obj' new = Some v \<and> map_of obj' old = None"
proof -
  obtain st' obj' where r: "rename_keys st obj m ctx = Inr (st', obj')"
    using rename_keys_total [OF d] by blast
  note mo = rename_keys_map_of [OF r nc]
  have "(old, new) \<in> set m" by (simp add: m)
  then have os: "old \<in> fst ` set m" and "new \<in> snd ` set m" by force+
  with nc have ns: "new \<notin> fst ` set m" by blast
  have "renamed_to new (pending obj m2) = []"
  proof -
    have "\<forall>e \<in> set (pending obj m2). fst (snd e) \<noteq> new"
    proof
      fix e assume e: "e \<in> set (pending obj m2)"
      from pending_sources [OF e] have p: "(fst e, fst (snd e)) \<in> set m2"
        "map_of obj (fst e) = Some (snd (snd e))" "truthy (snd (snd e))" by simp_all
      show "fst (snd e) \<noteq> new"
      proof
        assume "fst (snd e) = new"
        with later p(1) have "\<forall>w. map_of obj (fst e) = Some w \<longrightarrow> \<not> truthy w" by force
        with p(2,3) show False by simp
      qed
    qed
    then show ?thesis by (auto simp: filter_empty_conv renamed_to_def)
  qed
  then have "renamed_to new (pending obj m)
           = renamed_to new (pending obj m1) @ [(old, new, v)]"
    using v by (simp add: m pending_append pending_Cons renamed_to_def)
  then have "map_of obj' new = Some v"
    using mo [of new] ns by simp
  moreover have "map_of obj' old = None" using mo [of old] os by simp
  ultimately show ?thesis using r by blast
qed


section \<open>What the migration leaves alone\<close>

lemma rename_keys_unmapped:
  "rename_keys st obj m ctx = Inr (st', obj') \<Longrightarrow> unmapped m obj' = unmapped m obj"
  unfolding unmapped_def by (rule rename_keys_frame)

lemma rename_keys_value_frame:
  "rename_keys_value m st x = Inr (st', x') \<Longrightarrow> frame_value m x' = frame_value m x"
  by (cases x)
     (auto simp: rename_keys_value_def frame_value_def rename_keys_unmapped
           split: sum.splits if_splits)

lemma rename_keys_value_shape:
  "rename_keys_value m st x = Inr (st', x') \<Longrightarrow>
   (\<exists>d d'. x = JObj d \<and> x' = JObj d' \<and> rename_keys st d m [] = Inr (st', d'))
   \<or> ((\<forall>d. x \<noteq> JObj d) \<and> x' = x \<and> st' = st)"
  by (cases x) (auto simp: rename_keys_value_def split: sum.splits if_splits)

lemma for_each_frame:
  assumes "\<And>st x st' x'. body st x = Inr (st', x') \<Longrightarrow> f x' = f x"
  shows "for_each body st xs = Inr (st', xs') \<Longrightarrow> map f xs' = map f xs"
proof (induction xs arbitrary: st xs')
  case Nil
  then show ?case by simp
next
  case (Cons x xs)
  from Cons.prems obtain st1 x1 xs1 where
    b: "body st x = Inr (st1, x1)" and r: "for_each body st1 xs = Inr (st', xs1)" and e: "xs' = x1 # xs1"
    by (auto split: sum.splits prod.splits)
  from assms [OF b] Cons.IH [OF r] e show ?case by simp
qed

lemma frame_elements_put_back:
  assumes "py_iter c = Inr items" and "map f items' = map f items"
  shows "frame_elements f (put_back c items') = frame_elements f c"
  using assms by (cases c) (auto simp: py_iter_def put_back_def frame_elements_def)

lemma map_filter_dict_set:
  assumes "map_of d k = Some v" and "g (k, x) = g (k, v)"
  shows "map g (filter (\<lambda>p. Q (fst p)) (dict_set k x d)) = map g (filter (\<lambda>p. Q (fst p)) d)"
  using assms
proof (induction d)
  case Nil
  then show ?case by simp
next
  case (Cons p d)
  then show ?case by (cases p) (auto split: if_splits)
qed

lemma unmapped_dict_set:
  "map_of d k = Some v \<Longrightarrow> g (k, x) = g (k, v) \<Longrightarrow>
   map g (unmapped m (dict_set k x d)) = map g (unmapped m d)"
  unfolding unmapped_def by (rule map_filter_dict_set)

lemma standardize_pattern_frame:
  assumes "standardize_pattern st p = Inr (st', p')"
  shows "frame_pattern p' = frame_pattern p"
proof -
  from assms obtain st1 p1 where r: "rename_keys_value pattern_mapping st p = Inr (st1, p1)"
    by (auto simp: standardize_pattern_def split: sum.splits)
  from rename_keys_value_shape [OF r] show ?thesis
  proof
    assume "\<exists>d d'. p = JObj d \<and> p1 = JObj d' \<and> rename_keys st d pattern_mapping [] = Inr (st1, d')"
    then obtain d d1 where p: "p = JObj d" and p1: "p1 = JObj d1"
      and rk: "rename_keys st d pattern_mapping [] = Inr (st1, d1)" by blast
    have u: "unmapped pattern_mapping d1 = unmapped pattern_mapping d"
      using rk by (rule rename_keys_unmapped)
    show ?thesis
    proof (cases "map_of d1 ''moves''")
      case None
      with assms r p1 have "p' = JObj d1"
        by (simp add: standardize_pattern_def py_in_def has_key_def)
      with u p show ?thesis by (simp add: frame_pattern_def)
    next
      case (Some moves)
      with assms r p1 obtain items st2 items' where
        it: "py_iter moves = Inr items"
        and fe: "for_each (rename_keys_value move_mapping) st1 items = Inr (st2, items')"
        and p': "p' = JObj (dict_set ''moves'' (put_back moves items') d1)"
        by (auto simp: standardize_pattern_def py_in_def has_key_def py_index_def
                 split: sum.splits)
      have "map (frame_value move_mapping) items' = map (frame_value move_mapping) items"
        using fe by (rule for_each_frame [rotated]) (rule rename_keys_value_frame)
      with it have "frame_elements (frame_value move_mapping) (put_back moves items')
                  = frame_elements (frame_value move_mapping) moves"
        by (rule frame_elements_put_back)
      then have "frame_under ''moves'' (frame_value move_mapping) (''moves'', put_back moves items')
               = frame_under ''moves'' (frame_value move_mapping) (''moves'', moves)"
        by (simp add: frame_under_def)
      from unmapped_dict_set [OF Some this]
      show ?thesis by (simp add: p p' frame_pattern_def u)
    qed
  next
    assume "(\<forall>d. p \<noteq> JObj d) \<and> p1 = p \<and> st1 = st"
    with assms r show ?thesis
      by (cases p)
         (auto simp: standardize_pattern_def py_in_def py_index_def split: sum.splits if_splits bool.splits)
  qed
qed

lemma standardize_patterns_frame:
  assumes "standardize_patterns st data = Inr (st', data')"
  shows "frame_patterns data' = frame_patterns data"
proof (cases data)
  case (JObj d)
  show ?thesis
  proof (cases "map_of d ''patterns''")
    case None
    with assms JObj show ?thesis
      by (simp add: standardize_patterns_def py_in_def has_key_def)
  next
    case (Some patterns)
    with assms JObj obtain items items' where
      it: "py_iter patterns = Inr items"
      and fe: "for_each standardize_pattern st items = Inr (st', items')"
      and d': "data' = JObj (dict_set ''patterns'' (put_back patterns items') d)"
      by (auto simp: standardize_patterns_def py_in_def has_key_def py_index_def
               split: sum.splits)
    have "map frame_pattern items' = map frame_pattern items"
      using fe by (rule for_each_frame [rotated]) (rule standardize_pattern_frame)
    with it have "frame_elements frame_pattern (put_back patterns items')
                = frame_elements frame_pattern patterns"
      by (rule frame_elements_put_back)
    then have "frame_under ''patterns'' frame_pattern (''patterns'', put_back patterns items')
             = frame_under ''patterns'' frame_pattern (''patterns'', patterns)"
      by (simp add: frame_under_def)
    from map_filter_dict_set [OF Some this, of "\<lambda>_. True"]
    show ?thesis by (simp add: JObj d' frame_patterns_def)
  qed
qed (use assms in \<open>auto simp: standardize_patterns_def py_in_def py_index_def split: sum.splits if_splits bool.splits\<close>)

section \<open>What the migration stores\<close>

lemma renamed_to_Cons:
  "renamed_to k ((old, new, v) # ktr) = (if new = k then (old, new, v) # renamed_to k ktr else renamed_to k ktr)"
  by (simp add: renamed_to_def)

lemma map_of_dict_remove_other: "map_of (dict_remove k d) k' = (if k' = k then None else map_of d k')"
  by (induction d) (auto simp: dict_remove_def)

lemma apply_renames_untouched:
  "apply_renames st ctx ktr obj = Inr (st', obj') \<Longrightarrow> k \<notin> fst ` set ktr \<Longrightarrow>
   renamed_to k ktr = [] \<Longrightarrow> map_of obj' k = map_of obj k"
proof (induction ktr arbitrary: st obj)
  case Nil
  then show ?case by simp
next
  case (Cons a ktr)
  obtain old new v where a: "a = (old, new, v)" by (cases a)
  from Cons.prems(2) a have k: "k \<noteq> old" "k \<notin> fst ` set ktr" by auto
  from Cons.prems(3) a have n: "new \<noteq> k" "renamed_to k ktr = []"
    by (auto simp: renamed_to_Cons split: if_splits)
  show ?case
  proof (cases "old = new")
    case True
    with Cons.prems(1) a have "apply_renames st ctx ktr obj = Inr (st', obj')" by simp
    from Cons.IH [OF this k(2) n(2)] show ?thesis .
  next
    case False
    with Cons.prems(1) a obtain st1 obj1 where
      d: "dict_del old (dict_set new v obj) = Inr obj1"
      and r: "apply_renames st1 ctx ktr obj1 = Inr (st', obj')"
      by (auto split: sum.splits)
    from d have "obj1 = dict_remove old (dict_set new v obj)"
      by (auto simp: dict_del_def split: if_splits)
    with k n have "map_of obj1 k = map_of obj k"
      by (simp add: map_of_dict_remove_other)
    with Cons.IH [OF r k(2) n(2)] show ?thesis by simp
  qed
qed

lemma rename_keys_untouched:
  assumes r: "rename_keys st obj m ctx = Inr (st', obj')"
    and k: "k \<notin> fst ` set m" "renamed_to k (pending obj m) = []"
  shows "map_of obj' k = map_of obj k"
proof -
  let ?obj = "filter (\<lambda>p. fst p \<notin> dead obj m) obj"
  obtain st1 where ap: "apply_renames st1 ctx (pending obj m) ?obj = Inr (st', obj')"
    using rename_keys_unfold [of st obj m ctx] r by (elim exE) simp
  from k(1) have "k \<notin> fst ` set (pending obj m)"
    unfolding pending_live by blast
  from apply_renames_untouched [OF ap this k(2)]
  have "map_of obj' k = map_of ?obj k" .
  moreover from k(1) have "k \<notin> dead obj m" by (simp add: dead_def)
  then have "map_of ?obj k = map_of obj k"
    by (simp only: map_of_filter_keys if_False)
  ultimately show ?thesis by simp
qed

lemma apply_renames_state_free:
  "apply_renames st ctx ktr obj = Inr (st', obj') \<Longrightarrow>
   \<exists>st2'. apply_renames st2 ctx2 ktr obj = Inr (st2', obj')"
proof (induction ktr arbitrary: st st2 obj)
  case Nil
  then show ?case by simp
next
  case (Cons a ktr)
  obtain old new v where a: "a = (old, new, v)" by (cases a)
  show ?case
  proof (cases "old = new")
    case True
    with Cons.prems a have "apply_renames st ctx ktr obj = Inr (st', obj')" by simp
    from Cons.IH [OF this, of st2] True a show ?thesis by simp
  next
    case False
    with Cons.prems a obtain st1 obj1 where
      d: "dict_del old (dict_set new v obj) = Inr obj1"
      and r: "apply_renames st1 ctx ktr obj1 = Inr (st', obj')"
      by (auto split: sum.splits)
    from Cons.IH [OF r] False a d show ?thesis by simp
  qed
qed

lemma rename_keys_state_free:
  assumes "rename_keys st obj m ctx = Inr (st', obj')"
  shows "\<exists>st2'. rename_keys st2 obj m ctx2 = Inr (st2', obj')"
proof -
  let ?obj = "filter (\<lambda>p. fst p \<notin> dead obj m) obj"
  obtain st1 where "apply_renames st1 ctx (pending obj m) ?obj = Inr (st', obj')"
    using rename_keys_unfold [of st obj m ctx] assms by (elim exE) simp
  from apply_renames_state_free [OF this]
  have "\<exists>st2'. apply_renames s ctx2 (pending obj m) ?obj = Inr (st2', obj')" for s by blast
  then show ?thesis
    using rename_keys_unfold [of st2 obj m ctx2] by (elim exE) simp
qed

lemma rename_keys_value_migrated:
  assumes "rename_keys_value m st x = Inr (st', x')"
  shows "x' = migrated_node m x"
  using rename_keys_value_shape [OF assms]
proof
  assume "\<exists>d d'. x = JObj d \<and> x' = JObj d' \<and> rename_keys st d m [] = Inr (st', d')"
  then obtain d d' where x: "x = JObj d" "x' = JObj d'"
    and r: "rename_keys st d m [] = Inr (st', d')" by blast
  from rename_keys_state_free [OF r] obtain st2 where
    "rename_keys (new_standardizer False False) d m [] = Inr (st2, d')" by blast
  with x show ?thesis by (simp add: migrated_node_def)
next
  assume "(\<forall>d. x \<noteq> JObj d) \<and> x' = x \<and> st' = st"
  then show ?thesis by (cases x) (simp_all add: migrated_node_def)
qed

lemma for_each_map:
  assumes "\<And>st x st' x'. body st x = Inr (st', x') \<Longrightarrow> x' = f x"
  shows "for_each body st xs = Inr (st', xs') \<Longrightarrow> xs' = map f xs"
proof (induction xs arbitrary: st xs')
  case Nil
  then show ?case by simp
next
  case (Cons x xs)
  from Cons.prems obtain st1 x1 xs1 where
    b: "body st x = Inr (st1, x1)" and r: "for_each body st1 xs = Inr (st', xs1)" and e: "xs' = x1 # xs1"
    by (auto split: sum.splits prod.splits)
  from assms [OF b] Cons.IH [OF r] e show ?case by simp
qed

lemma put_back_map:
  assumes "py_iter c = Inr items"
  shows "put_back c (map f items) = frame_elements f c"
  using assms by (cases c) (auto simp: py_iter_def put_back_def frame_elements_def)

lemma standardize_pattern_migrated:
  assumes "standardize_pattern st p = Inr (st', p')"
  shows "p' = migrated_pattern p"
proof -
  from assms obtain st1 p1 where r: "rename_keys_value pattern_mapping st p = Inr (st1, p1)"
    by (auto simp: standardize_pattern_def split: sum.splits)
  from rename_keys_value_migrated [OF r] have p1m: "migrated_node pattern_mapping p = p1" by simp
  from rename_keys_value_shape [OF r] show ?thesis
  proof
    assume "\<exists>d d'. p = JObj d \<and> p1 = JObj d' \<and> rename_keys st d pattern_mapping [] = Inr (st1, d')"
    then obtain d1 where p1: "p1 = JObj d1" by blast
    show ?thesis
    proof (cases "map_of d1 ''moves''")
      case None
      with assms r p1 have "p' = JObj d1"
        by (simp add: standardize_pattern_def py_in_def has_key_def)
      with None p1 p1m show ?thesis by (simp add: migrated_pattern_def)
    next
      case (Some moves)
      with assms r p1 obtain items st2 items' where
        it: "py_iter moves = Inr items"
        and fe: "for_each (rename_keys_value move_mapping) st1 items = Inr (st2, items')"
        and p': "p' = JObj (dict_set ''moves'' (put_back moves items') d1)"
        by (auto simp: standardize_pattern_def py_in_def has_key_def py_index_def
                 split: sum.splits)
      have "items' = map (migrated_node move_mapping) items"
        using fe by (rule for_each_map [rotated]) (rule rename_keys_value_migrated)
      with put_back_map [OF it] have "put_back moves items' = frame_elements (migrated_node move_mapping) moves"
        by simp
      with p' Some p1 p1m show ?thesis by (simp add: migrated_pattern_def)
    qed
  next
    assume a: "(\<forall>d. p \<noteq> JObj d) \<and> p1 = p \<and> st1 = st"
    with p1m have m: "migrated_pattern p = p" by (cases p) (simp_all add: migrated_pattern_def)
    from a assms r have "p' = p"
      by (cases p)
         (auto simp: standardize_pattern_def py_in_def py_index_def split: sum.splits if_splits bool.splits)
    with m show ?thesis by simp
  qed
qed

lemma standardize_patterns_migrated:
  assumes "standardize_patterns st data = Inr (st', data')"
  shows "data' = migrated_patterns data"
proof (cases data)
  case (JObj d)
  show ?thesis
  proof (cases "map_of d ''patterns''")
    case None
    with assms JObj show ?thesis
      by (auto simp add: standardize_patterns_def migrated_patterns_def py_in_def has_key_def)
  next
    case (Some patterns)
    with assms JObj obtain items items' where
      it: "py_iter patterns = Inr items"
      and fe: "for_each standardize_pattern st items = Inr (st', items')"
      and d': "data' = JObj (dict_set ''patterns'' (put_back patterns items') d)"
      by (auto simp: standardize_patterns_def py_in_def has_key_def py_index_def
               split: sum.splits)
    have "items' = map migrated_pattern items"
      using fe by (rule for_each_map [rotated]) (rule standardize_pattern_migrated)
    with put_back_map [OF it] have "put_back patterns items' = frame_elements migrated_pattern patterns"
      by simp
    with d' Some JObj show ?thesis by (simp add: migrated_patterns_def)
  qed
qed (use assms in \<open>auto simp: standardize_patterns_def migrated_patterns_def py_in_def py_index_def split: sum.splits if_splits bool.splits\<close>)

lemma no_truthy_source_no_rename:
  assumes "\<forall>src v. (src, k) \<in> set m \<and> map_of obj src = Some v \<longrightarrow> \<not> truthy v"
  shows "renamed_to k (pending obj m) = []"
proof (rule ccontr)
  assume "renamed_to k (pending obj m) \<noteq> []"
  from last_renamed_to [OF this] assms show False by blast
qed

section \<open>The claims on the schema migrator\<close>

lemma tables_distinct:
  "distinct (map fst terminology_mapping)" "distinct (map fst techniques_mapping)"
  "distinct (map fst pattern_mapping)" "distinct (map fst move_mapping)"
  "distinct (map fst action_mapping)" "distinct (map fst theory_mapping)"
  "distinct (map fst vocabulary_mapping)"
  by (simp_all add: terminology_mapping_def techniques_mapping_def pattern_mapping_def
      move_mapping_def action_mapping_def theory_mapping_def vocabulary_mapping_def)

lemma tables_unchained:
  "fst ` set terminology_mapping \<inter> snd ` set terminology_mapping = {}"
  "fst ` set techniques_mapping \<inter> snd ` set techniques_mapping = {}"
  "fst ` set pattern_mapping \<inter> snd ` set pattern_mapping = {}"
  "fst ` set move_mapping \<inter> snd ` set move_mapping = {}"
  "fst ` set action_mapping \<inter> snd ` set action_mapping = {}"
  "fst ` set theory_mapping \<inter> snd ` set theory_mapping = {}"
  "fst ` set vocabulary_mapping \<inter> snd ` set vocabulary_mapping = {}"
  by (simp_all add: terminology_mapping_def techniques_mapping_def pattern_mapping_def
      move_mapping_def action_mapping_def theory_mapping_def vocabulary_mapping_def)

text \<open>
  C3, as the claim states it, fails. A pattern whose \<^verbatim>\<open>name\<close> and \<^verbatim>\<open>english\<close> are both
  empty keeps its empty \<^verbatim>\<open>english\<close>: the target key of the mapping exists with an empty
  value after the migration. And with the table of the technique files, where two source
  keys share the target \<^verbatim>\<open>hangul\<close>, the empty \<^verbatim>\<open>korean\<close> is deleted and \<^verbatim>\<open>hangul\<close> is
  created all the same, from \<^verbatim>\<open>korean_hangul\<close>.
\<close>

theorem empty_target_survives:
  "map_sum id snd (rename_keys (new_standardizer False False)
      [(''name'', JStr ''''), (''english'', JStr '''')] pattern_mapping '''')
     = Inr [(''english'', JStr '''')]
   \<and> map_sum id snd (rename_keys (new_standardizer False False)
      [(''korean'', JStr ''''), (''korean_hangul'', JStr ''X'')] techniques_mapping '''')
     = Inr [(''hangul'', JStr ''X'')]"
  by (simp add: rename_keys_def pattern_mapping_def techniques_mapping_def new_standardizer_def
      dict_remove_def dict_del_def has_key_def)

text \<open>
  C3, amended. Let the keys of the mapping table be distinct and no target key be a
  source key, as in every table of the script. For a node and a mapping whose source key
  is there with an empty value, the migration succeeds and the source key is gone; the
  target key holds what it held before, unless another mapping of the table has renamed
  a non-empty value of its own source to it; and every empty value of the node after the
  migration was there before, under the same key, which is no source key. So no key that
  the migration stores is empty: an empty field is never renamed.
\<close>

theorem empty_source_deleted_not_renamed:
  assumes "distinct (map fst m)"
    and "fst ` set m \<inter> snd ` set m = {}"
    and "(old, new) \<in> set m"
    and "map_of obj old = Some v" and "\<not> truthy v"
  shows "\<exists>st' obj'. rename_keys st obj m ctx = Inr (st', obj')
           \<and> map_of obj' old = None
           \<and> (map_of obj' new = map_of obj new
                \<or> (\<exists>src w. (src, new) \<in> set m \<and> src \<noteq> old \<and> map_of obj src = Some w
                           \<and> truthy w \<and> map_of obj' new = Some w))
           \<and> (\<forall>k w. map_of obj' k = Some w \<and> \<not> truthy w
                   \<longrightarrow> map_of obj k = Some w \<and> k \<notin> fst ` set m)"
  using assms by (rule rename_empty_source)

theorem empty_source_deleted_not_renamed_witness:
  "distinct (map fst techniques_mapping)
   \<and> fst ` set techniques_mapping \<inter> snd ` set techniques_mapping = {}
   \<and> (''korean'', ''hangul'') \<in> set techniques_mapping
   \<and> map_of [(''korean'', JStr ''''), (''korean_hangul'', JStr ''X'')] ''korean'' = Some (JStr '''')
   \<and> \<not> truthy (JStr '''')
   \<and> (\<exists>st' obj'. rename_keys (new_standardizer False True)
            [(''korean'', JStr ''''), (''korean_hangul'', JStr ''X'')] techniques_mapping '''' = Inr (st', obj')
         \<and> map_of obj' ''korean'' = None
         \<and> (map_of obj' ''hangul'' = map_of [(''korean'', JStr ''''), (''korean_hangul'', JStr ''X'')] ''hangul''
              \<or> (\<exists>src w. (src, ''hangul'') \<in> set techniques_mapping \<and> src \<noteq> ''korean''
                    \<and> map_of [(''korean'', JStr ''''), (''korean_hangul'', JStr ''X'')] src = Some w
                    \<and> truthy w \<and> map_of obj' ''hangul'' = Some w))
         \<and> (\<forall>k w. map_of obj' k = Some w \<and> \<not> truthy w
               \<longrightarrow> map_of [(''korean'', JStr ''''), (''korean_hangul'', JStr ''X'')] k = Some w
                   \<and> k \<notin> fst ` set techniques_mapping))"
proof -
  have h: "(''korean'', ''hangul'') \<in> set techniques_mapping"
    "map_of [(''korean'', JStr ''''), (''korean_hangul'', JStr ''X'')] ''korean'' = Some (JStr '''')"
    "\<not> truthy (JStr '''')"
    by (simp_all add: techniques_mapping_def)
  from empty_source_deleted_not_renamed [OF tables_distinct(2) tables_unchained(2) h]
  show ?thesis using tables_distinct(2) tables_unchained(2) h by blast
qed

text \<open>
  C8. Whatever the table, the key renaming of a node leaves every entry whose key is
  neither a source nor a target key of the table as it is, in the same order, and every key
  that is no source key and to which no source key present with a true value is mapped
  keeps its value: only the keys renamed or removed, and the targets of the renamings,
  differ. When no target key of the table is also a source key, the node after the
  migration is known key by key: a source key is absent, a key to which a present source
  with a true value is mapped holds the value of the last such source in the order of the
  table, and every other key holds what it held. The migration of a pattern document
  returns the document in which every pattern and every move of every pattern is renamed
  in this way and nothing else is touched: the document, the patterns and the moves stay
  where they are, in sequences of the same length and order.
\<close>

theorem migration_preserves_structure:
  "(rename_keys st obj m ctx = Inr (st', obj') \<longrightarrow>
      unmapped m obj' = unmapped m obj
      \<and> (\<forall>k. k \<notin> fst ` set m
               \<and> (\<forall>src v. (src, k) \<in> set m \<and> map_of obj src = Some v \<longrightarrow> \<not> truthy v)
               \<longrightarrow> map_of obj' k = map_of obj k)
      \<and> (fst ` set m \<inter> snd ` set m = {} \<longrightarrow>
           (\<forall>k. map_of obj' k =
                  (if k \<in> fst ` set m then None
                   else if renamed_to k (pending obj m) = [] then map_of obj k
                   else Some (snd (snd (last (renamed_to k (pending obj m)))))))))
   \<and> (standardize_patterns st1 data = Inr (st1', data')
        \<longrightarrow> frame_patterns data' = frame_patterns data \<and> data' = migrated_patterns data)"
proof (intro conjI impI allI)
  assume r: "rename_keys st obj m ctx = Inr (st', obj')"
  from r show "unmapped m obj' = unmapped m obj" by (rule rename_keys_unmapped)
  show "map_of obj' k = map_of obj k"
    if "k \<notin> fst ` set m
        \<and> (\<forall>src v. (src, k) \<in> set m \<and> map_of obj src = Some v \<longrightarrow> \<not> truthy v)" for k
  proof -
    from that have "renamed_to k (pending obj m) = []"
      by (intro no_truthy_source_no_rename) blast
    with r that show ?thesis by (intro rename_keys_untouched) blast+
  qed
  show "map_of obj' k =
          (if k \<in> fst ` set m then None
           else if renamed_to k (pending obj m) = [] then map_of obj k
           else Some (snd (snd (last (renamed_to k (pending obj m))))))"
    if "fst ` set m \<inter> snd ` set m = {}" for k
    using r that by (rule rename_keys_map_of)
next
  assume "standardize_patterns st1 data = Inr (st1', data')"
  then show "frame_patterns data' = frame_patterns data" by (rule standardize_patterns_frame)
next
  assume "standardize_patterns st1 data = Inr (st1', data')"
  then show "data' = migrated_patterns data" by (rule standardize_patterns_migrated)
qed

theorem migration_preserves_structure_witness:
  "rename_keys (new_standardizer False False)
      [(''id'', JNum 1), (''name'', JStr ''Chon-Ji''), (''pronunciation'', JStr []),
       (''romanised'', JStr ''Chon-Ji''), (''belt'', JStr ''9th keup'')] pattern_mapping []
     = Inr ((new_standardizer False False)\<lparr>empty_fields_removed := 1, properties_renamed := 1\<rparr>,
            [(''id'', JNum 1), (''romanised'', JStr ''Chon-Ji''), (''belt'', JStr ''9th keup''),
             (''english'', JStr ''Chon-Ji'')])
   \<and> unmapped pattern_mapping
        [(''id'', JNum 1), (''romanised'', JStr ''Chon-Ji''), (''belt'', JStr ''9th keup''),
         (''english'', JStr ''Chon-Ji'')]
     = unmapped pattern_mapping
        [(''id'', JNum 1), (''name'', JStr ''Chon-Ji''), (''pronunciation'', JStr []),
         (''romanised'', JStr ''Chon-Ji''), (''belt'', JStr ''9th keup'')]
   \<and> unmapped pattern_mapping
        [(''id'', JNum 1), (''name'', JStr ''Chon-Ji''), (''pronunciation'', JStr []),
         (''romanised'', JStr ''Chon-Ji''), (''belt'', JStr ''9th keup'')]
     = [(''id'', JNum 1), (''belt'', JStr ''9th keup'')]
   \<and> map_of [(''id'', JNum 1), (''romanised'', JStr ''Chon-Ji''), (''belt'', JStr ''9th keup''),
             (''english'', JStr ''Chon-Ji'')] ''romanised''
     = map_of [(''id'', JNum 1), (''name'', JStr ''Chon-Ji''), (''pronunciation'', JStr []),
               (''romanised'', JStr ''Chon-Ji''), (''belt'', JStr ''9th keup'')] ''romanised''
   \<and> fst ` set pattern_mapping \<inter> snd ` set pattern_mapping = {}
   \<and> map_of [(''id'', JNum 1), (''romanised'', JStr ''Chon-Ji''), (''belt'', JStr ''9th keup''),
             (''english'', JStr ''Chon-Ji'')] ''english'' = Some (JStr ''Chon-Ji'')
   \<and> map_of [(''id'', JNum 1), (''romanised'', JStr ''Chon-Ji''), (''belt'', JStr ''9th keup''),
             (''english'', JStr ''Chon-Ji'')] ''name'' = None
   \<and> map_of [(''id'', JNum 1), (''romanised'', JStr ''Chon-Ji''), (''belt'', JStr ''9th keup''),
             (''english'', JStr ''Chon-Ji'')] ''pronunciation'' = None
   \<and> standardize_patterns (new_standardizer False False)
        (JObj [(''belt'', JStr ''9th keup''),
               (''patterns'', JArr [JObj [(''name'', JStr ''Chon-Ji''), (''move_count'', JNum 19),
                  (''moves'', JArr [JObj [(''move_number'', JNum 1), (''technique'', JStr ''Low Block'')],
                                   JObj [(''move_number'', JNum 2), (''korean_technique'', JStr [])]])]])])
     = Inr ((new_standardizer False False)\<lparr>empty_fields_removed := 1, properties_renamed := 2\<rparr>,
        JObj [(''belt'', JStr ''9th keup''),
               (''patterns'', JArr [JObj [(''move_count'', JNum 19),
                  (''moves'', JArr [JObj [(''move_number'', JNum 1), (''english'', JStr ''Low Block'')],
                                   JObj [(''move_number'', JNum 2)]]),
                  (''english'', JStr ''Chon-Ji'')]])])
   \<and> frame_patterns
        (JObj [(''belt'', JStr ''9th keup''),
               (''patterns'', JArr [JObj [(''move_count'', JNum 19),
                  (''moves'', JArr [JObj [(''move_number'', JNum 1), (''english'', JStr ''Low Block'')],
                                   JObj [(''move_number'', JNum 2)]]),
                  (''english'', JStr ''Chon-Ji'')]])])
     = frame_patterns
        (JObj [(''belt'', JStr ''9th keup''),
               (''patterns'', JArr [JObj [(''name'', JStr ''Chon-Ji''), (''move_count'', JNum 19),
                  (''moves'', JArr [JObj [(''move_number'', JNum 1), (''technique'', JStr ''Low Block'')],
                                   JObj [(''move_number'', JNum 2), (''korean_technique'', JStr [])]])]])])
   \<and> JObj [(''belt'', JStr ''9th keup''),
               (''patterns'', JArr [JObj [(''move_count'', JNum 19),
                  (''moves'', JArr [JObj [(''move_number'', JNum 1), (''english'', JStr ''Low Block'')],
                                   JObj [(''move_number'', JNum 2)]]),
                  (''english'', JStr ''Chon-Ji'')]])]
     = migrated_patterns
        (JObj [(''belt'', JStr ''9th keup''),
               (''patterns'', JArr [JObj [(''name'', JStr ''Chon-Ji''), (''move_count'', JNum 19),
                  (''moves'', JArr [JObj [(''move_number'', JNum 1), (''technique'', JStr ''Low Block'')],
                                   JObj [(''move_number'', JNum 2), (''korean_technique'', JStr [])]])]])])"
proof -
  let ?st = "new_standardizer False False"
  let ?obj = "[(''id'', JNum 1), (''name'', JStr ''Chon-Ji''), (''pronunciation'', JStr []),
       (''romanised'', JStr ''Chon-Ji''), (''belt'', JStr ''9th keup'')]"
  let ?st' = "(new_standardizer False False)\<lparr>empty_fields_removed := 1, properties_renamed := 1\<rparr>"
  let ?obj' = "[(''id'', JNum 1), (''romanised'', JStr ''Chon-Ji''), (''belt'', JStr ''9th keup''),
             (''english'', JStr ''Chon-Ji'')]"
  let ?data = "JObj [(''belt'', JStr ''9th keup''),
               (''patterns'', JArr [JObj [(''name'', JStr ''Chon-Ji''), (''move_count'', JNum 19),
                  (''moves'', JArr [JObj [(''move_number'', JNum 1), (''technique'', JStr ''Low Block'')],
                                   JObj [(''move_number'', JNum 2), (''korean_technique'', JStr [])]])]])]"
  let ?st1' = "(new_standardizer False False)\<lparr>empty_fields_removed := 1, properties_renamed := 2\<rparr>"
  let ?data' = "JObj [(''belt'', JStr ''9th keup''),
               (''patterns'', JArr [JObj [(''move_count'', JNum 19),
                  (''moves'', JArr [JObj [(''move_number'', JNum 1), (''english'', JStr ''Low Block'')],
                                   JObj [(''move_number'', JNum 2)]]),
                  (''english'', JStr ''Chon-Ji'')]])]"
  have a: "rename_keys ?st ?obj pattern_mapping [] = Inr (?st', ?obj')"
    by (simp add: rename_keys_def pattern_mapping_def new_standardizer_def
        dict_remove_def dict_del_def has_key_def)
  have b: "standardize_patterns ?st ?data = Inr (?st1', ?data')"
    by (simp add: standardize_patterns_def standardize_pattern_def rename_keys_value_def
        rename_keys_def pattern_mapping_def move_mapping_def new_standardizer_def
        py_in_def py_index_def py_iter_def put_back_def
        dict_remove_def dict_del_def has_key_def)
  have u: "unmapped pattern_mapping ?obj = [(''id'', JNum 1), (''belt'', JStr ''9th keup'')]"
    by (simp add: unmapped_def pattern_mapping_def)
  have h: "fst ` set pattern_mapping \<inter> snd ` set pattern_mapping = {}"
    by (simp add: pattern_mapping_def)
  have p: "pending ?obj pattern_mapping = [(''name'', ''english'', JStr ''Chon-Ji'')]"
    by (simp add: pending_def pattern_mapping_def)
  note t = migration_preserves_structure
    [where st = ?st and obj = ?obj and m = pattern_mapping and ctx = "[]" and st' = ?st'
       and obj' = ?obj' and ?st1.0 = ?st and data = ?data and ?st1' = ?st1' and data' = ?data']
  note n = t [THEN conjunct1, THEN mp, OF a]
  have n1: "unmapped pattern_mapping ?obj' = unmapped pattern_mapping ?obj"
    by (rule n [THEN conjunct1])
  have n2: "map_of ?obj' ''romanised'' = map_of ?obj ''romanised''"
    by (rule n [THEN conjunct2, THEN conjunct1, THEN spec, THEN mp])
       (auto simp: pattern_mapping_def)
  note x = n [THEN conjunct2, THEN conjunct2, THEN mp, OF h, THEN spec]
  have n3: "map_of ?obj' ''english'' = Some (JStr ''Chon-Ji'')"
    using x [of "''english''"] by (simp add: p renamed_to_def pattern_mapping_def)
  have n4: "map_of ?obj' ''name'' = None"
    using x [of "''name''"] by (simp add: pattern_mapping_def)
  have n5: "map_of ?obj' ''pronunciation'' = None"
    using x [of "''pronunciation''"] by (simp add: pattern_mapping_def)
  note m = t [THEN conjunct2, THEN mp, OF b]
  have m1: "frame_patterns ?data' = frame_patterns ?data" by (rule m [THEN conjunct1])
  have m2: "?data' = migrated_patterns ?data" by (rule m [THEN conjunct2])
  show ?thesis
    by (intro conjI a n1 u n2 h n3 n4 n5 b m1 m2)
qed

text \<open>
  C9, as the claim states it, fails on the table of the technique files, where
  \<^verbatim>\<open>korean\<close> and \<^verbatim>\<open>korean_hangul\<close> both rename to \<^verbatim>\<open>hangul\<close>: a node that holds all three
  keys ends with the value of \<^verbatim>\<open>korean_hangul\<close>, the later entry of the table, under
  \<^verbatim>\<open>hangul\<close>, not with the value of \<^verbatim>\<open>korean\<close>.
\<close>

theorem later_source_wins_target:
  "map_sum id snd (rename_keys (new_standardizer False False)
      [(''korean'', JStr ''A''), (''korean_hangul'', JStr ''B''), (''hangul'', JStr ''C'')]
      techniques_mapping '''')
     = Inr [(''hangul'', JStr ''B'')]"
  by (simp add: rename_keys_def techniques_mapping_def new_standardizer_def
      dict_remove_def dict_del_def has_key_def)

text \<open>
  C9, amended. Let the keys of the mapping table be distinct and no target key be a
  source key. For a node that holds the source key of a mapping with a non-empty value,
  when no later entry of the table renames a non-empty value to the same target key, the
  migration succeeds, the target key holds the value of the source key afterwards,
  whatever it held before, and the source key is gone.
\<close>

theorem source_overwrites_target:
  assumes "distinct (map fst m)"
    and "fst ` set m \<inter> snd ` set m = {}"
    and "m = m1 @ (old, new) # m2"
    and "map_of obj old = Some v" and "truthy v"
    and "\<forall>e \<in> set m2. snd e = new \<longrightarrow> (\<forall>w. map_of obj (fst e) = Some w \<longrightarrow> \<not> truthy w)"
  shows "\<exists>st' obj'. rename_keys st obj m ctx = Inr (st', obj')
           \<and> map_of obj' new = Some v \<and> map_of obj' old = None"
  using assms by (rule rename_onto_target)

theorem source_overwrites_target_witness:
  "distinct (map fst pattern_mapping)
   \<and> fst ` set pattern_mapping \<inter> snd ` set pattern_mapping = {}
   \<and> pattern_mapping = [] @ (''name'', ''english'') # [(''pronunciation'', ''romanised'')]
   \<and> map_of [(''name'', JStr ''Chon-Ji''), (''english'', JStr ''Heaven and Earth'')] ''name''
       = Some (JStr ''Chon-Ji'')
   \<and> truthy (JStr ''Chon-Ji'')
   \<and> (\<exists>st' obj'. rename_keys (new_standardizer False False)
          [(''name'', JStr ''Chon-Ji''), (''english'', JStr ''Heaven and Earth'')] pattern_mapping ''''
            = Inr (st', obj')
         \<and> map_of obj' ''english'' = Some (JStr ''Chon-Ji'') \<and> map_of obj' ''name'' = None)"
proof -
  have h: "pattern_mapping = [] @ (''name'', ''english'') # [(''pronunciation'', ''romanised'')]"
    "map_of [(''name'', JStr ''Chon-Ji''), (''english'', JStr ''Heaven and Earth'')] ''name''
       = Some (JStr ''Chon-Ji'')"
    "truthy (JStr ''Chon-Ji'')"
    "\<forall>e \<in> set [(''pronunciation'', ''romanised'')]. snd e = ''english'' \<longrightarrow>
       (\<forall>w. map_of [(''name'', JStr ''Chon-Ji''), (''english'', JStr ''Heaven and Earth'')] (fst e) = Some w
          \<longrightarrow> \<not> truthy w)"
    by (simp_all add: pattern_mapping_def)
  from source_overwrites_target [OF tables_distinct(3) tables_unchained(3) h]
  show ?thesis using tables_distinct(3) tables_unchained(3) h(1,2,3) by blast
qed

section \<open>The romanization corrector\<close>

lemma dict_set_same: "map_of d k = Some v \<Longrightarrow> dict_set k v d = d"
  by (induction d) (auto split: if_splits)

lemma dict_set_idem [simp]: "dict_set k v (dict_set k v d) = dict_set k v d"
  by (rule dict_set_same) simp

lemma for_each_idem:
  assumes "\<And>st x st' x' st2. body1 st x = Inr (st', x') \<Longrightarrow> body2 st2 x' = Inr (st2, x')"
  shows "for_each body1 st xs = Inr (st', xs') \<Longrightarrow> for_each body2 st2 xs' = Inr (st2, xs')"
proof (induction xs arbitrary: st xs')
  case Nil
  then show ?case by simp
next
  case (Cons x xs)
  from Cons.prems obtain st1 x1 xs1 where
    b: "body1 st x = Inr (st1, x1)" and r: "for_each body1 st1 xs = Inr (st', xs1)" and e: "xs' = x1 # xs1"
    by (auto split: sum.splits prod.splits)
  from assms [OF b, of st2] Cons.IH [OF r] e show ?case by simp
qed

lemma for_each_strings:
  assumes "\<And>st s st' x'. body st (JStr s) = Inr (st', x') \<Longrightarrow> x' = JStr s"
  shows "for_each body st (map JStr ss) = Inr (st', xs') \<Longrightarrow> xs' = map JStr ss"
proof (induction ss arbitrary: st xs')
  case Nil
  then show ?case by simp
next
  case (Cons s ss)
  from Cons.prems obtain st1 x1 xs1 where
    b: "body st (JStr s) = Inr (st1, x1)" and r: "for_each body st1 (map JStr ss) = Inr (st', xs1)"
    and e: "xs' = x1 # xs1"
    by (auto split: sum.splits prod.splits)
  from assms [OF b] Cons.IH [OF r] e show ?case by simp
qed

lemma py_iter_cases:
  assumes "py_iter c = Inr items"
  obtains (list) "c = JArr items" | (strings) ss where "items = map JStr ss" "\<forall>xs. c \<noteq> JArr xs"
proof (cases c)
  case (JArr xs)
  with assms list show ?thesis by (simp add: py_iter_def)
next
  case (JObj d)
  with assms have "items = map JStr (map fst d)" by (auto simp: py_iter_def)
  with JObj strings show ?thesis by blast
next
  case (JStr s)
  with assms have "items = map JStr (map (\<lambda>c. [c]) s)" by (auto simp: py_iter_def)
  with JStr strings show ?thesis by blast
qed (use assms in \<open>simp_all add: py_iter_def\<close>)

lemma put_back_iter:
  assumes "py_iter c = Inr items"
    and "\<And>st s st' x'. body st (JStr s) = Inr (st', x') \<Longrightarrow> x' = JStr s"
    and "for_each body st items = Inr (st', items')"
  shows "py_iter (put_back c items') = Inr items'"
  using assms(1)
proof (cases rule: py_iter_cases)
  case list
  then show ?thesis by (simp add: put_back_def py_iter_def)
next
  case (strings ss)
  with for_each_strings [of body st ss st' items'] assms(2,3) have "items' = items" by blast
  moreover from strings have "put_back c items' = c" by (cases c) (auto simp: put_back_def)
  ultimately show ?thesis using assms(1) by simp
qed

lemma put_back_put_back: "put_back (put_back c xs) xs = put_back c xs"
  by (cases c) (auto simp: put_back_def)

lemma for_each_under_idem:
  assumes idem: "\<And>st x st' x' st2. body1 st x = Inr (st', x') \<Longrightarrow> body2 st2 x' = Inr (st2, x')"
    and str: "\<And>st s st' x'. body1 st (JStr s) = Inr (st', x') \<Longrightarrow> x' = JStr s"
    and run: "for_each_under key body1 st d = Inr (st', d')"
  shows "for_each_under key body2 st2 d' = Inr (st2, d')"
proof (cases "map_of d key")
  case None
  with run show ?thesis by (simp add: for_each_under_def)
next
  case (Some c)
  with run obtain items items' where it: "py_iter c = Inr items"
    and fe: "for_each body1 st items = Inr (st', items')"
    and d': "d' = dict_set key (put_back c items') d"
    by (auto simp: for_each_under_def split: sum.splits)
  have "py_iter (put_back c items') = Inr items'"
    using it str fe by (rule put_back_iter)
  moreover have "for_each body2 st2 items' = Inr (st2, items')"
    using fe by (rule for_each_idem [rotated]) (rule idem)
  ultimately show ?thesis
    by (simp add: for_each_under_def d' put_back_put_back)
qed

lemma correct_move_idem:
  assumes "correct_move m name st move = Inr (st', move')"
  shows "correct_move m name2 st2 move' = Inr (st2, move')"
proof -
  from assms obtain d where d: "move = JObj d"
    by (cases move) (auto simp: correct_move_def)
  show ?thesis
  proof (cases "lookup_technique m (dict_get d ''technique'' (JStr ''''))")
    case (Inl e)
    with assms d show ?thesis by (simp add: correct_move_def)
  next
    case (Inr r)
    show ?thesis
    proof (cases r)
      case None
      with assms d Inr show ?thesis by (auto simp: correct_move_def)
    next
      case (Some c)
      show ?thesis
      proof (cases "dict_get d ''korean_technique'' (JStr '''') = JStr c")
        case True
        with assms d Inr Some show ?thesis by (auto simp: correct_move_def)
      next
        case False
        with assms d Inr Some have "move' = JObj (dict_set ''korean_technique'' (JStr c) d)"
          by (auto simp: correct_move_def Let_def)
        with Inr Some show ?thesis
          by (simp add: correct_move_def dict_get_def)
      qed
    qed
  qed
qed

lemma correct_move_str: "correct_move m name st (JStr s) = Inr (st', x') \<Longrightarrow> x' = JStr s"
  by (simp add: correct_move_def)

lemma dict_get_dict_set: "k' \<noteq> k \<Longrightarrow> dict_get (dict_set k v d) k' dflt = dict_get d k' dflt"
  by (simp add: dict_get_def)

lemma correct_pattern_idem:
  assumes "correct_pattern m st pattern = Inr (st', pattern')"
  shows "correct_pattern m st2 pattern' = Inr (st2, pattern')"
proof -
  from assms obtain d where d: "pattern = JObj d"
    by (cases pattern) (auto simp: correct_pattern_def)
  with assms obtain d' where
    run: "for_each_under ''moves'' (correct_move m (dict_get d ''name'' (JStr ''Unknown''))) st d = Inr (st', d')"
    and p': "pattern' = JObj d'"
    by (auto simp: correct_pattern_def Let_def split: sum.splits)
  have "for_each_under ''moves'' (correct_move m (dict_get d' ''name'' (JStr ''Unknown''))) st2 d' = Inr (st2, d')"
    using _ _ run by (rule for_each_under_idem) (auto intro: correct_move_idem correct_move_str)
  then show ?thesis by (simp add: correct_pattern_def p')
qed

lemma correct_pattern_str: "correct_pattern m st (JStr s) = Inr (st', x') \<Longrightarrow> x' = JStr s"
  by (simp add: correct_pattern_def)

lemma correct_document_idem:
  assumes "correct_document m data = Inr (st', data')"
  shows "correct_document m data' = Inr ((False, []), data')"
proof -
  from assms obtain d where d: "data = JObj d"
    by (cases data) (auto simp: correct_document_def)
  with assms obtain d' where
    run: "for_each_under ''patterns'' (correct_pattern m) (False, []) d = Inr (st', d')"
    and p': "data' = JObj d'"
    by (auto simp: correct_document_def split: sum.splits)
  have "for_each_under ''patterns'' (correct_pattern m) (False, []) d' = Inr ((False, []), d')"
    using _ _ run by (rule for_each_under_idem) (auto intro: correct_pattern_idem correct_pattern_str)
  then show ?thesis by (simp add: correct_document_def p')
qed

lemma correct_korean_romanizations_idem:
  "(case correct_korean_romanizations m (c0, s0) path of
      ((c1, s1), r1) \<Rightarrow> correct_korean_romanizations m (c1, s1) path = ((c1, s1), False))"
proof (cases "contents s0 path")
  case None
  then show ?thesis by (simp add: correct_korean_romanizations_def)
next
  case (Some data)
  show ?thesis
  proof (cases "correct_document m data")
    case (Inl e)
    with Some show ?thesis by (simp add: correct_korean_romanizations_def)
  next
    case (Inr r)
    obtain made cs data' where r: "r = ((made, cs), data')" by (cases r) auto
    show ?thesis
    proof (cases made)
      case False
      with Some Inr r show ?thesis by (simp add: correct_korean_romanizations_def)
    next
      case True
      from Inr r have "correct_document m data' = Inr ((False, []), data')"
        using correct_document_idem by blast
      with Some Inr r True show ?thesis
        by (simp add: correct_korean_romanizations_def write_file_def)
    qed
  qed
qed

lemma correct_move_minimal:
  assumes "correct_move m name st (JObj d) = Inr (st', move')"
  shows "\<exists>d'. move' = JObj d'
           \<and> (\<forall>k. k \<noteq> ''korean_technique'' \<longrightarrow> map_of d' k = map_of d k)
           \<and> (d' \<noteq> d \<longrightarrow>
                (\<exists>s c. dict_get d ''technique'' (JStr '''') = JStr s \<and> map_of m s = Some c
                      \<and> dict_get d ''korean_technique'' (JStr '''') \<noteq> JStr c
                      \<and> map_of d' ''korean_technique'' = Some (JStr c)))"
  using assms
  by (auto simp: correct_move_def Let_def lookup_technique_def split: sum.splits option.splits json.splits if_splits)


text \<open>
  C10. The corrector changes a move only under the key \<^verbatim>\<open>korean_technique\<close>, and only
  when the technique of the move is a key of the table and the current value differs from
  the value of the table, which it then stores. A second run of
  \<^verbatim>\<open>correct_korean_romanizations\<close> on the same file, whatever the first run did, returns
  \<^verbatim>\<open>False\<close> and leaves the corrector, with its list of applied corrections, and the store,
  with the document and the record of writes, as the first run left them.
\<close>

theorem korean_corrector_minimal_and_idempotent:
  "(correct_move korean_mapping name st (JObj d) = Inr (st', move') \<longrightarrow>
      (\<exists>d'. move' = JObj d'
         \<and> (\<forall>k. k \<noteq> ''korean_technique'' \<longrightarrow> map_of d' k = map_of d k)
         \<and> (d' \<noteq> d \<longrightarrow>
              (\<exists>s c. dict_get d ''technique'' (JStr []) = JStr s \<and> map_of korean_mapping s = Some c
                    \<and> dict_get d ''korean_technique'' (JStr []) \<noteq> JStr c
                    \<and> map_of d' ''korean_technique'' = Some (JStr c)))))
   \<and> (case correct_korean_romanizations korean_mapping (c0, s0) path of
         ((c1, s1), r1) \<Rightarrow>
           correct_korean_romanizations korean_mapping (c1, s1) path = ((c1, s1), False))"
  using correct_move_minimal [of korean_mapping name st d st' move']
    correct_korean_romanizations_idem [where m = korean_mapping and ?c0.0 = c0 and ?s0.0 = s0
      and path = path]
  by blast

theorem korean_corrector_minimal_and_idempotent_witness:
  "correct_move korean_mapping (JStr ''Chon-Ji'') (False, [])
      (JObj [(''move_number'', JNum 3), (''technique'', JStr ''Front Kick''),
             (''korean_technique'', JStr ''Ap Chaggi'')])
     = Inr ((True, [\<lparr>kc_pattern = JStr ''Chon-Ji'', kc_move = JNum 3,
                       kc_english_technique = JStr ''Front Kick'',
                       kc_old_korean = JStr ''Ap Chaggi'', kc_new_korean = ''Ap Chagi''\<rparr>]),
            JObj [(''move_number'', JNum 3), (''technique'', JStr ''Front Kick''),
                  (''korean_technique'', JStr ''Ap Chagi'')])
   \<and> (\<exists>d'. JObj [(''move_number'', JNum 3), (''technique'', JStr ''Front Kick''),
                  (''korean_technique'', JStr ''Ap Chagi'')] = JObj d'
         \<and> (\<forall>k. k \<noteq> ''korean_technique'' \<longrightarrow>
                map_of d' k = map_of [(''move_number'', JNum 3), (''technique'', JStr ''Front Kick''),
                                      (''korean_technique'', JStr ''Ap Chaggi'')] k))
   \<and> correct_korean_romanizations korean_mapping
        (\<lparr>corrections_applied = []\<rparr>,
         \<lparr>contents = Map.empty(''9th_keup_patterns.json'' \<mapsto>
             JObj [(''patterns'', JArr [JObj [(''name'', JStr ''Chon-Ji''),
                (''moves'', JArr [JObj [(''move_number'', JNum 3), (''technique'', JStr ''Front Kick''),
                                        (''korean_technique'', JStr ''Ap Chaggi'')]])]])]),
           written = []\<rparr>) ''9th_keup_patterns.json''
     = ((\<lparr>corrections_applied = [\<lparr>kc_pattern = JStr ''Chon-Ji'', kc_move = JNum 3,
                       kc_english_technique = JStr ''Front Kick'',
                       kc_old_korean = JStr ''Ap Chaggi'', kc_new_korean = ''Ap Chagi''\<rparr>]\<rparr>,
         write_file ''9th_keup_patterns.json''
           (JObj [(''patterns'', JArr [JObj [(''name'', JStr ''Chon-Ji''),
                (''moves'', JArr [JObj [(''move_number'', JNum 3), (''technique'', JStr ''Front Kick''),
                                        (''korean_technique'', JStr ''Ap Chagi'')]])]])])
           \<lparr>contents = Map.empty(''9th_keup_patterns.json'' \<mapsto>
             JObj [(''patterns'', JArr [JObj [(''name'', JStr ''Chon-Ji''),
                (''moves'', JArr [JObj [(''move_number'', JNum 3), (''technique'', JStr ''Front Kick''),
                                        (''korean_technique'', JStr ''Ap Chaggi'')]])]])]),
            written = []\<rparr>), True)
   \<and> correct_korean_romanizations korean_mapping
        (\<lparr>corrections_applied = [\<lparr>kc_pattern = JStr ''Chon-Ji'', kc_move = JNum 3,
                       kc_english_technique = JStr ''Front Kick'',
                       kc_old_korean = JStr ''Ap Chaggi'', kc_new_korean = ''Ap Chagi''\<rparr>]\<rparr>,
         write_file ''9th_keup_patterns.json''
           (JObj [(''patterns'', JArr [JObj [(''name'', JStr ''Chon-Ji''),
                (''moves'', JArr [JObj [(''move_number'', JNum 3), (''technique'', JStr ''Front Kick''),
                                        (''korean_technique'', JStr ''Ap Chagi'')]])]])])
           \<lparr>contents = Map.empty(''9th_keup_patterns.json'' \<mapsto>
             JObj [(''patterns'', JArr [JObj [(''name'', JStr ''Chon-Ji''),
                (''moves'', JArr [JObj [(''move_number'', JNum 3), (''technique'', JStr ''Front Kick''),
                                        (''korean_technique'', JStr ''Ap Chaggi'')]])]])]),
            written = []\<rparr>) ''9th_keup_patterns.json''
     = ((\<lparr>corrections_applied = [\<lparr>kc_pattern = JStr ''Chon-Ji'', kc_move = JNum 3,
                       kc_english_technique = JStr ''Front Kick'',
                       kc_old_korean = JStr ''Ap Chaggi'', kc_new_korean = ''Ap Chagi''\<rparr>]\<rparr>,
         write_file ''9th_keup_patterns.json''
           (JObj [(''patterns'', JArr [JObj [(''name'', JStr ''Chon-Ji''),
                (''moves'', JArr [JObj [(''move_number'', JNum 3), (''technique'', JStr ''Front Kick''),
                                        (''korean_technique'', JStr ''Ap Chagi'')]])]])])
           \<lparr>contents = Map.empty(''9th_keup_patterns.json'' \<mapsto>
             JObj [(''patterns'', JArr [JObj [(''name'', JStr ''Chon-Ji''),
                (''moves'', JArr [JObj [(''move_number'', JNum 3), (''technique'', JStr ''Front Kick''),
                                        (''korean_technique'', JStr ''Ap Chaggi'')]])]])]),
            written = []\<rparr>), False)"
proof -
  have mv: "map_of korean_mapping ''Front Kick'' = Some ''Ap Chagi''"
    by (simp add: korean_mapping_def)
  have a: "correct_move korean_mapping (JStr ''Chon-Ji'') (False, [])
      (JObj [(''move_number'', JNum 3), (''technique'', JStr ''Front Kick''),
             (''korean_technique'', JStr ''Ap Chaggi'')])
     = Inr ((True, [\<lparr>kc_pattern = JStr ''Chon-Ji'', kc_move = JNum 3,
                       kc_english_technique = JStr ''Front Kick'',
                       kc_old_korean = JStr ''Ap Chaggi'', kc_new_korean = ''Ap Chagi''\<rparr>]),
            JObj [(''move_number'', JNum 3), (''technique'', JStr ''Front Kick''),
                  (''korean_technique'', JStr ''Ap Chagi'')])"
    by (simp add: correct_move_def lookup_technique_def dict_get_def mv Let_def)
  have b: "correct_korean_romanizations korean_mapping
        (\<lparr>corrections_applied = []\<rparr>,
         \<lparr>contents = Map.empty(''9th_keup_patterns.json'' \<mapsto>
             JObj [(''patterns'', JArr [JObj [(''name'', JStr ''Chon-Ji''),
                (''moves'', JArr [JObj [(''move_number'', JNum 3), (''technique'', JStr ''Front Kick''),
                                        (''korean_technique'', JStr ''Ap Chaggi'')]])]])]),
           written = []\<rparr>) ''9th_keup_patterns.json''
     = ((\<lparr>corrections_applied = [\<lparr>kc_pattern = JStr ''Chon-Ji'', kc_move = JNum 3,
                       kc_english_technique = JStr ''Front Kick'',
                       kc_old_korean = JStr ''Ap Chaggi'', kc_new_korean = ''Ap Chagi''\<rparr>]\<rparr>,
         write_file ''9th_keup_patterns.json''
           (JObj [(''patterns'', JArr [JObj [(''name'', JStr ''Chon-Ji''),
                (''moves'', JArr [JObj [(''move_number'', JNum 3), (''technique'', JStr ''Front Kick''),
                                        (''korean_technique'', JStr ''Ap Chagi'')]])]])])
           \<lparr>contents = Map.empty(''9th_keup_patterns.json'' \<mapsto>
             JObj [(''patterns'', JArr [JObj [(''name'', JStr ''Chon-Ji''),
                (''moves'', JArr [JObj [(''move_number'', JNum 3), (''technique'', JStr ''Front Kick''),
                                        (''korean_technique'', JStr ''Ap Chaggi'')]])]])]),
            written = []\<rparr>), True)"
    by (simp add: correct_korean_romanizations_def correct_document_def correct_pattern_def
        for_each_under_def py_iter_def put_back_def a dict_get_def Let_def)
  let ?s0 = "\<lparr>contents = Map.empty(''9th_keup_patterns.json'' \<mapsto>
             JObj [(''patterns'', JArr [JObj [(''name'', JStr ''Chon-Ji''),
                (''moves'', JArr [JObj [(''move_number'', JNum 3), (''technique'', JStr ''Front Kick''),
                                        (''korean_technique'', JStr ''Ap Chaggi'')]])]])]),
            written = []\<rparr>"
  note t = korean_corrector_minimal_and_idempotent
         [where name = "JStr ''Chon-Ji''" and st = "(False, [])"
            and d = "[(''move_number'', JNum 3), (''technique'', JStr ''Front Kick''),
                      (''korean_technique'', JStr ''Ap Chaggi'')]"
            and ?c0.0 = "\<lparr>corrections_applied = []\<rparr>"
            and ?s0.0 = ?s0
            and path = "''9th_keup_patterns.json''"]
  from t a have c1: "\<exists>d'. JObj [(''move_number'', JNum 3), (''technique'', JStr ''Front Kick''),
                  (''korean_technique'', JStr ''Ap Chagi'')] = JObj d'
         \<and> (\<forall>k. k \<noteq> ''korean_technique'' \<longrightarrow>
                map_of d' k = map_of [(''move_number'', JNum 3), (''technique'', JStr ''Front Kick''),
                                      (''korean_technique'', JStr ''Ap Chaggi'')] k)"
    by blast
  from t have "case correct_korean_romanizations korean_mapping
                  (\<lparr>corrections_applied = []\<rparr>, ?s0) ''9th_keup_patterns.json'' of
         ((c1, s1), r1) \<Rightarrow>
           correct_korean_romanizations korean_mapping (c1, s1) ''9th_keup_patterns.json''
             = ((c1, s1), False)"
    by (rule conjunct2)
  then have c2: "correct_korean_romanizations korean_mapping
        (\<lparr>corrections_applied = [\<lparr>kc_pattern = JStr ''Chon-Ji'', kc_move = JNum 3,
                       kc_english_technique = JStr ''Front Kick'',
                       kc_old_korean = JStr ''Ap Chaggi'', kc_new_korean = ''Ap Chagi''\<rparr>]\<rparr>,
         write_file ''9th_keup_patterns.json''
           (JObj [(''patterns'', JArr [JObj [(''name'', JStr ''Chon-Ji''),
                (''moves'', JArr [JObj [(''move_number'', JNum 3), (''technique'', JStr ''Front Kick''),
                                        (''korean_technique'', JStr ''Ap Chagi'')]])]])])
           ?s0) ''9th_keup_patterns.json''
     = ((\<lparr>corrections_applied = [\<lparr>kc_pattern = JStr ''Chon-Ji'', kc_move = JNum 3,
                       kc_english_technique = JStr ''Front Kick'',
                       kc_old_korean = JStr ''Ap Chaggi'', kc_new_korean = ''Ap Chagi''\<rparr>]\<rparr>,
         write_file ''9th_keup_patterns.json''
           (JObj [(''patterns'', JArr [JObj [(''name'', JStr ''Chon-Ji''),
                (''moves'', JArr [JObj [(''move_number'', JNum 3), (''technique'', JStr ''Front Kick''),
                                        (''korean_technique'', JStr ''Ap Chagi'')]])]])])
           ?s0), False)"
    unfolding b by (simp only: prod.case)
  from a c1 b c2 show ?thesis by (intro conjI)
qed

section \<open>When a file is written\<close>

















section \<open>What the correctors report\<close>



lemma update_move_no_correction:
  assumes "map_of d ''move_number'' = Some mn" and "corr (pn @ ''_'' @ py_str repr mn) = None"
  shows "update_move repr pn corr st (JObj d) = Inr (st, JObj d)"
  using assms by (simp add: update_move_def py_index_def Let_def)





lemma changes_only_append [simp]:
  "changes_only (xs @ ys) = (changes_only xs \<and> changes_only ys)"
  by (simp add: changes_only_def)






section \<open>The claims on writing and reporting\<close>








section \<open>Running the normalizer and the migrator twice\<close>

subsection \<open>Characters\<close>

lemma char_case_facts:
  "to_lower (to_lower c) = to_lower c \<and> to_lower (to_upper c) = to_lower c
   \<and> to_upper (to_lower c) = to_upper c \<and> to_upper (to_upper c) = to_upper c
   \<and> is_word (to_lower c) = is_word c \<and> is_word (to_upper c) = is_word c
   \<and> is_space (to_lower c) = is_space c \<and> is_space (to_upper c) = is_space c
   \<and> (to_lower c = CHR ''('') = (c = CHR ''('') \<and> (to_upper c = CHR ''('') = (c = CHR ''('')
   \<and> (to_lower c = CHR '')'') = (c = CHR '')'') \<and> (to_upper c = CHR '')'') = (c = CHR '')'')
   \<and> (to_lower c = CHR ''-'') = (c = CHR ''-'') \<and> (to_upper c = CHR ''-'') = (c = CHR ''-'')
   \<and> (is_space c \<longrightarrow> \<not> is_word c \<and> c \<noteq> CHR ''-'' \<and> c \<noteq> CHR ''('' \<and> c \<noteq> CHR '')'')"
proof (cases c)
  case (Char b0 b1 b2 b3 b4 b5 b6 b7)
  then show ?thesis
    by (cases b0; cases b1; cases b2; cases b3; cases b4; cases b5; cases b6; cases b7;
        simp add: char_defs)
qed

lemma char_case_simps [simp]:
  "to_lower (to_lower c) = to_lower c"
  "to_lower (to_upper c) = to_lower c"
  "to_upper (to_lower c) = to_upper c"
  "to_upper (to_upper c) = to_upper c"
  "is_word (to_lower c) = is_word c"
  "is_word (to_upper c) = is_word c"
  "is_space (to_lower c) = is_space c"
  "is_space (to_upper c) = is_space c"
  using char_case_facts [of c] by blast+

lemma to_lower_eq_mark:
  "k = CHR ''('' \<or> k = CHR '')'' \<or> k = CHR ''-'' \<Longrightarrow> (to_lower c = k) = (c = k)"
  using char_case_facts [of c] by auto

lemma space_not_word: "is_space c \<Longrightarrow> \<not> is_word c"
  using char_case_facts [of c] by blast

lemma space_not_hyphen: "is_space c \<Longrightarrow> c \<noteq> CHR ''-''"
  using char_case_facts [of c] by blast

lemma marks_not_word: "\<not> is_word CHR ''(''" "\<not> is_word CHR '')''" "\<not> is_word CHR ''-''"
  by (simp_all add: char_defs)

lemma space_is_space: "is_space CHR '' ''"
  by (simp add: char_defs)

subsection \<open>Case conversion of strings\<close>

lemma capitalize_Nil [simp]: "capitalize [] = []"
  by (simp add: capitalize_def)

lemma capitalize_Cons: "capitalize (c # cs) = to_upper c # map to_lower cs"
  by (simp add: capitalize_def)

lemma capitalize_eq_Nil [simp]: "(capitalize x = []) = (x = [])"
  by (cases x) (simp_all add: capitalize_Cons)

lemma length_capitalize [simp]: "length (capitalize x) = length x"
  by (cases x) (simp_all add: capitalize_Cons)

lemma map_to_lower_capitalize [simp]: "map to_lower (capitalize x) = map to_lower x"
  by (cases x) (simp_all add: capitalize_Cons)

lemma capitalize_fold: "map to_lower x = map to_lower y \<Longrightarrow> capitalize x = capitalize y"
proof (cases x)
  case Nil
  assume "map to_lower x = map to_lower y"
  with Nil show ?thesis by simp
next
  case (Cons c cs)
  assume e: "map to_lower x = map to_lower y"
  with Cons obtain d ds where y: "y = d # ds" by (cases y) auto
  from e Cons y have "to_lower c = to_lower d" and t: "map to_lower cs = map to_lower ds" by auto
  then have "to_upper (to_lower c) = to_upper (to_lower d)" by simp
  then have "to_upper c = to_upper d" by simp
  with t Cons y show ?thesis by (simp add: capitalize_Cons)
qed

lemma capitalize_capitalize [simp]: "capitalize (capitalize x) = capitalize x"
  by (rule capitalize_fold) simp

lemma list_all_capitalize_word [simp]: "list_all is_word (capitalize x) = list_all is_word x"
  by (cases x) (simp_all add: capitalize_Cons list_all_iff)

lemma fold_mem:
  assumes "map to_lower x = map to_lower y" and "k = CHR ''('' \<or> k = CHR '')'' \<or> k = CHR ''-''"
  shows "(k \<in> set x) = (k \<in> set y)"
proof -
  have "(k \<in> set (map to_lower z)) = (k \<in> set z)" for z
  proof -
    have "(k \<in> set (map to_lower z)) = (\<exists>c \<in> set z. to_lower c = k)" by auto
    also have "\<dots> = (\<exists>c \<in> set z. c = k)" by (simp add: to_lower_eq_mark [OF assms(2)])
    finally show ?thesis by simp
  qed
  with assms(1) show ?thesis by metis
qed

lemma fold_index:
  assumes "map to_lower x = map to_lower y" and "k = CHR ''('' \<or> k = CHR '')'' \<or> k = CHR ''-''"
  shows "index_of k x = index_of k y"
proof -
  have "index_of k z = index_of k (map to_lower z)" for z
    using to_lower_eq_mark [OF assms(2)] by (induction z) (auto simp: index_of_def)
  with assms(1) show ?thesis by metis
qed

lemma fold_no_space:
  assumes "map to_lower x = map to_lower y"
  shows "list_all (\<lambda>c. \<not> is_space c) x = list_all (\<lambda>c. \<not> is_space c) y"
proof -
  have "list_all (\<lambda>c. \<not> is_space c) z = list_all (\<lambda>c. \<not> is_space c) (map to_lower z)" for z
    by (induction z) auto
  with assms show ?thesis by metis
qed

lemma fold_head_word:
  assumes "map to_lower x = map to_lower y"
  shows "(x \<noteq> [] \<and> is_word (hd x)) = (y \<noteq> [] \<and> is_word (hd y))"
proof (cases x)
  case Nil with assms show ?thesis by simp
next
  case (Cons c cs)
  with assms obtain d ds where y: "y = d # ds" by (cases y) auto
  from assms Cons y have "to_lower c = to_lower d" by simp
  then have "is_word (to_lower c) = is_word (to_lower d)" by simp
  with Cons y show ?thesis by simp
qed

subsection \<open>Runs of word characters\<close>

lemma run_split:
  assumes "list_all P r" and "t = [] \<or> \<not> P (hd t)"
  shows "takeWhile P (r @ t) = r" and "dropWhile P (r @ t) = t"
proof -
  have a: "\<And>x. x \<in> set r \<Longrightarrow> P x" using assms(1) by (simp add: list_all_iff)
  have b: "takeWhile P t = []" "dropWhile P t = t" using assms(2) by (cases t; simp)+
  show "takeWhile P (r @ t) = r" using a b by (simp add: takeWhile_append2)
  show "dropWhile P (r @ t) = t" using a b by (simp add: dropWhile_append2)
qed

lemma run_end: "list_all is_word r \<Longrightarrow> sub_hyphenated r = r"
proof (cases r)
  case Nil then show ?thesis by simp
next
  case (Cons c cs)
  assume "list_all is_word r"
  with Cons have c: "is_word c" and cs: "list_all is_word cs" by simp_all
  from run_split [OF cs, of "[]"] have a: "takeWhile is_word cs = cs" "dropWhile is_word cs = []"
    by simp_all
  show ?thesis by (simp add: Cons c a Let_def)
qed

lemma run_hyph:
  assumes "r1 \<noteq> []" "list_all is_word r1" "r2 \<noteq> []" "list_all is_word r2"
    and "t = [] \<or> \<not> is_word (hd t)"
  shows "sub_hyphenated (r1 @ CHR ''-'' # r2 @ t)
         = capitalize r1 @ CHR ''-'' # capitalize r2 @ sub_hyphenated t"
proof -
  from assms(1) obtain c cs where r1: "r1 = c # cs" by (cases r1) auto
  with assms(2) have c: "is_word c" and cs: "list_all is_word cs" by simp_all
  have a: "takeWhile is_word (cs @ CHR ''-'' # r2 @ t) = cs"
          "dropWhile is_word (cs @ CHR ''-'' # r2 @ t) = CHR ''-'' # r2 @ t"
    using run_split [OF cs, of "CHR ''-'' # r2 @ t"] marks_not_word by simp_all
  have b: "takeWhile is_word (r2 @ t) = r2" "dropWhile is_word (r2 @ t) = t"
    using run_split [OF assms(4) assms(5)] by simp_all
  from assms(3,4) have h: "is_word (hd r2)" by (cases r2) simp_all
  show ?thesis
    by (simp add: r1 c a b h assms(3) Let_def)
qed

lemma run_plain:
  assumes "r1 \<noteq> []" "list_all is_word r1" "\<not> is_word h"
    and "\<not> (h = CHR ''-'' \<and> t \<noteq> [] \<and> is_word (hd t))"
  shows "sub_hyphenated (r1 @ h # t) = r1 @ h # sub_hyphenated t"
proof -
  from assms(1) obtain c cs where r1: "r1 = c # cs" by (cases r1) auto
  with assms(2) have c: "is_word c" and cs: "list_all is_word cs" by simp_all
  have a: "takeWhile is_word (cs @ h # t) = cs" "dropWhile is_word (cs @ h # t) = h # t"
    using run_split [OF cs, of "h # t"] assms(3) by simp_all
  show ?thesis
    using assms(4) by (auto simp add: r1 c a Let_def)
qed

lemma sub_hyphenated_cases [case_names Nil Other End Hyph Plain]:
  assumes "s = [] \<Longrightarrow> R"
    and "\<And>c cs. s = c # cs \<Longrightarrow> \<not> is_word c \<Longrightarrow> R"
    and "s \<noteq> [] \<Longrightarrow> list_all is_word s \<Longrightarrow> R"
    and "\<And>r1 r2 t. s = r1 @ CHR ''-'' # r2 @ t \<Longrightarrow> r1 \<noteq> [] \<Longrightarrow> list_all is_word r1 \<Longrightarrow> r2 \<noteq> []
           \<Longrightarrow> list_all is_word r2 \<Longrightarrow> t = [] \<or> \<not> is_word (hd t) \<Longrightarrow> R"
    and "\<And>r1 h t. s = r1 @ h # t \<Longrightarrow> r1 \<noteq> [] \<Longrightarrow> list_all is_word r1 \<Longrightarrow> \<not> is_word h
           \<Longrightarrow> \<not> (h = CHR ''-'' \<and> t \<noteq> [] \<and> is_word (hd t)) \<Longrightarrow> R"
  shows R
proof (cases s)
  case Nil with assms(1) show R .
next
  case (Cons c cs)
  show R
  proof (cases "is_word c")
    case False with Cons assms(2) show R by blast
  next
    case True
    define r1 where "r1 = takeWhile is_word s"
    have r1: "list_all is_word r1" "r1 \<noteq> []"
      using True Cons by (auto simp: r1_def list_all_iff dest: set_takeWhileD)
    have s: "s = r1 @ dropWhile is_word s" by (simp add: r1_def)
    show R
    proof (cases "dropWhile is_word s")
      case Nil
      with s have "s = r1" by simp
      with r1 assms(3) show R by blast
    next
      case d: (Cons h t)
      have h: "\<not> is_word h" using hd_dropWhile [of is_word s] d by simp
      show R
      proof (cases "h = CHR ''-'' \<and> t \<noteq> [] \<and> is_word (hd t)")
        case False
        from s d have "s = r1 @ h # t" by simp
        from assms(5) [OF this r1(2) r1(1) h False] show R .
      next
        case hy: True
        define r2 where "r2 = takeWhile is_word t"
        have r2: "list_all is_word r2" "r2 \<noteq> []"
          using hy by (cases t; auto simp: r2_def list_all_iff dest: set_takeWhileD)+
        have t: "t = r2 @ dropWhile is_word t" by (simp add: r2_def)
        have e: "dropWhile is_word t = [] \<or> \<not> is_word (hd (dropWhile is_word t))"
          using hd_dropWhile [of is_word t] by blast
        from s d hy t have "s = r1 @ CHR ''-'' # r2 @ dropWhile is_word t" by simp
        from assms(4) [OF this r1(2) r1(1) r2(2) r2(1) e] show R .
      qed
    qed
  qed
qed

subsection \<open>The first pass of the normalizer\<close>

lemma sub_hyphenated_other: "\<not> is_word c \<Longrightarrow> sub_hyphenated (c # cs) = c # sub_hyphenated cs"
  by simp

lemma sub_hyphenated_fold: "map to_lower (sub_hyphenated s) = map to_lower s"
proof (induction s rule: length_induct)
  case (1 s)
  show ?case
  proof (cases s rule: sub_hyphenated_cases)
    case Nil then show ?thesis by simp
  next
    case (Other c cs)
    with 1 have "map to_lower (sub_hyphenated cs) = map to_lower cs" by simp
    with Other show ?thesis by simp
  next
    case End then show ?thesis by (simp add: run_end)
  next
    case (Hyph r1 r2 t)
    with 1 have "map to_lower (sub_hyphenated t) = map to_lower t" by simp
    with Hyph show ?thesis by (simp add: run_hyph)
  next
    case (Plain r1 h t)
    with 1 have "map to_lower (sub_hyphenated t) = map to_lower t" by simp
    with Plain show ?thesis by (simp add: run_plain)
  qed
qed

lemma length_sub_hyphenated [simp]: "length (sub_hyphenated s) = length s"
  using sub_hyphenated_fold [of s] by (metis length_map)

lemma sub_hyphenated_eq_Nil [simp]: "(sub_hyphenated s = []) = (s = [])"
  using length_sub_hyphenated [of s] by (metis length_0_conv)

lemma sub_hyphenated_head:
  "(sub_hyphenated t \<noteq> [] \<and> is_word (hd (sub_hyphenated t))) = (t \<noteq> [] \<and> is_word (hd t))"
  by (rule fold_head_word) (rule sub_hyphenated_fold)

lemma sub_hyphenated_no_space:
  "list_all (\<lambda>c. \<not> is_space c) (sub_hyphenated s) = list_all (\<lambda>c. \<not> is_space c) s"
  by (rule fold_no_space) (rule sub_hyphenated_fold)

lemma sub_hyphenated_no_hyphen: "CHR ''-'' \<notin> set s \<Longrightarrow> sub_hyphenated s = s"
proof (induction s rule: length_induct)
  case (1 s)
  show ?case
  proof (cases s rule: sub_hyphenated_cases)
    case Nil then show ?thesis by simp
  next
    case (Other c cs)
    with 1 have "sub_hyphenated cs = cs" by simp
    with Other show ?thesis by simp
  next
    case End then show ?thesis by (simp add: run_end)
  next
    case (Hyph r1 r2 t)
    with 1(2) show ?thesis by simp
  next
    case (Plain r1 h t)
    with 1 have "sub_hyphenated t = t" by simp
    with Plain show ?thesis by (simp add: run_plain)
  qed
qed

lemma sub_hyphenated_sep:
  assumes "\<not> is_word sep" and "sep \<noteq> CHR ''-''"
  shows "sub_hyphenated (a @ sep # b) = sub_hyphenated a @ sep # sub_hyphenated b"
proof (induction a rule: length_induct)
  case (1 a)
  show ?case
  proof (cases a rule: sub_hyphenated_cases)
    case Nil with assms show ?thesis by simp
  next
    case (Other c cs)
    with 1 have "sub_hyphenated (cs @ sep # b) = sub_hyphenated cs @ sep # sub_hyphenated b" by simp
    with Other show ?thesis by simp
  next
    case End
    from run_plain [OF End(1) End(2) assms(1), of b] assms(2)
    have "sub_hyphenated (a @ sep # b) = a @ sep # sub_hyphenated b" by simp
    with End show ?thesis by (simp add: run_end)
  next
    case (Hyph r1 r2 t)
    with 1 have ih: "sub_hyphenated (t @ sep # b) = sub_hyphenated t @ sep # sub_hyphenated b" by simp
    have "t @ sep # b = [] \<or> \<not> is_word (hd (t @ sep # b))"
      using Hyph(6) assms(1) by (cases t) simp_all
    from run_hyph [OF Hyph(2) Hyph(3) Hyph(4) Hyph(5) this]
    have "sub_hyphenated (r1 @ CHR ''-'' # r2 @ t @ sep # b)
          = capitalize r1 @ CHR ''-'' # capitalize r2 @ sub_hyphenated (t @ sep # b)" .
    with ih Hyph show ?thesis by (simp add: run_hyph)
  next
    case (Plain r1 h t)
    with 1 have ih: "sub_hyphenated (t @ sep # b) = sub_hyphenated t @ sep # sub_hyphenated b" by simp
    have "\<not> (h = CHR ''-'' \<and> t @ sep # b \<noteq> [] \<and> is_word (hd (t @ sep # b)))"
      using Plain(5) assms(1) by (cases t) simp_all
    from run_plain [OF Plain(2) Plain(3) Plain(4) this]
    have "sub_hyphenated (r1 @ h # t @ sep # b) = r1 @ h # sub_hyphenated (t @ sep # b)" .
    with ih Plain show ?thesis by (simp add: run_plain)
  qed
qed

lemma sub_hyphenated_idem: "sub_hyphenated (sub_hyphenated s) = sub_hyphenated s"
proof (induction s rule: length_induct)
  case (1 s)
  show ?case
  proof (cases s rule: sub_hyphenated_cases)
    case Nil then show ?thesis by simp
  next
    case (Other c cs)
    with 1 have "sub_hyphenated (sub_hyphenated cs) = sub_hyphenated cs" by simp
    with Other show ?thesis by simp
  next
    case End then show ?thesis by (simp add: run_end)
  next
    case (Hyph r1 r2 t)
    with 1 have ih: "sub_hyphenated (sub_hyphenated t) = sub_hyphenated t" by simp
    have e: "sub_hyphenated s = capitalize r1 @ CHR ''-'' # capitalize r2 @ sub_hyphenated t"
      using Hyph by (simp add: run_hyph)
    have h: "sub_hyphenated t = [] \<or> \<not> is_word (hd (sub_hyphenated t))"
      using Hyph(6) sub_hyphenated_head [of t] by auto
    have "sub_hyphenated (capitalize r1 @ CHR ''-'' # capitalize r2 @ sub_hyphenated t)
          = capitalize (capitalize r1) @ CHR ''-'' # capitalize (capitalize r2)
              @ sub_hyphenated (sub_hyphenated t)"
      by (rule run_hyph [OF _ _ _ _ h]) (simp_all add: Hyph)
    with e ih show ?thesis by simp
  next
    case (Plain r1 h t)
    with 1 have ih: "sub_hyphenated (sub_hyphenated t) = sub_hyphenated t" by simp
    have e: "sub_hyphenated s = r1 @ h # sub_hyphenated t"
      using Plain by (simp add: run_plain)
    have c: "\<not> (h = CHR ''-'' \<and> sub_hyphenated t \<noteq> [] \<and> is_word (hd (sub_hyphenated t)))"
      using Plain(5) sub_hyphenated_head [of t] by auto
    from run_plain [OF Plain(2) Plain(3) Plain(4) c] e ih show ?thesis by simp
  qed
qed

subsection \<open>Splitting at whitespace and joining\<close>

lemma split_ws_token:
  assumes "tok \<noteq> []" and "list_all (\<lambda>x. \<not> is_space x) tok" and "t = [] \<or> is_space (hd t)"
  shows "split_ws (tok @ t) = tok # split_ws t"
proof -
  from assms(1) obtain c cs where tok: "tok = c # cs" by (cases tok) auto
  with assms(2) have c: "\<not> is_space c" and cs: "list_all (\<lambda>x. \<not> is_space x) cs" by simp_all
  have "t = [] \<or> \<not> \<not> is_space (hd t)" using assms(3) by simp
  from run_split [OF cs this]
  have a: "takeWhile (\<lambda>x. \<not> is_space x) (cs @ t) = cs" "dropWhile (\<lambda>x. \<not> is_space x) (cs @ t) = t" .
  show ?thesis by (simp add: tok c a)
qed

lemma split_ws_single:
  "tok \<noteq> [] \<Longrightarrow> list_all (\<lambda>x. \<not> is_space x) tok \<Longrightarrow> split_ws tok = [tok]"
  using split_ws_token [of tok "[]"] by simp

lemma split_ws_tokens:
  "w \<in> set (split_ws s) \<Longrightarrow> w \<noteq> [] \<and> list_all (\<lambda>x. \<not> is_space x) w"
proof (induction s rule: split_ws.induct)
  case 1 then show ?case by simp
next
  case (2 c cs)
  show ?case
  proof (cases "is_space c")
    case True with 2 show ?thesis by simp
  next
    case False
    with 2(3) have "w = c # takeWhile (\<lambda>x. \<not> is_space x) cs
                    \<or> w \<in> set (split_ws (dropWhile (\<lambda>x. \<not> is_space x) cs))" by simp
    then show ?thesis
    proof
      assume "w = c # takeWhile (\<lambda>x. \<not> is_space x) cs"
      with False show ?thesis by (auto simp: list_all_iff dest: set_takeWhileD)
    next
      assume "w \<in> set (split_ws (dropWhile (\<lambda>x. \<not> is_space x) cs))"
      with 2(2) [OF False] show ?thesis .
    qed
  qed
qed

lemma join_Cons: "ws \<noteq> [] \<Longrightarrow> join sep (w # ws) = w @ sep @ join sep ws"
  by (cases ws) simp_all

lemma split_ws_join:
  "\<forall>w \<in> set ws. w \<noteq> [] \<and> list_all (\<lambda>x. \<not> is_space x) w \<Longrightarrow> split_ws (join '' '' ws) = ws"
proof (induction ws)
  case Nil then show ?case by simp
next
  case (Cons w ws)
  then have w: "w \<noteq> []" "list_all (\<lambda>x. \<not> is_space x) w" and ih: "split_ws (join '' '' ws) = ws"
    by simp_all
  show ?case
  proof (cases ws)
    case Nil with w show ?thesis by (simp add: split_ws_single)
  next
    case c: (Cons v vs)
    then have "join '' '' (w # ws) = w @ CHR '' '' # join '' '' ws" by simp
    moreover have "split_ws (w @ CHR '' '' # join '' '' ws) = w # split_ws (CHR '' '' # join '' '' ws)"
      by (rule split_ws_token [OF w]) (simp add: space_is_space)
    moreover have "split_ws (CHR '' '' # join '' '' ws) = split_ws (join '' '' ws)"
      by (simp add: space_is_space)
    ultimately show ?thesis using ih by simp
  qed
qed

lemma sub_hyphenated_join:
  "sub_hyphenated (join '' '' ws) = join '' '' (map sub_hyphenated ws)"
proof (induction ws)
  case Nil then show ?case by simp
next
  case (Cons w ws)
  show ?case
  proof (cases ws)
    case Nil then show ?thesis by simp
  next
    case c: (Cons v vs)
    have "sub_hyphenated (w @ CHR '' '' # join '' '' ws)
          = sub_hyphenated w @ CHR '' '' # sub_hyphenated (join '' '' ws)"
      by (rule sub_hyphenated_sep) (simp_all add: char_defs)
    with Cons c show ?thesis by simp
  qed
qed

lemma split_ws_sub_hyphenated:
  "split_ws (sub_hyphenated s) = map sub_hyphenated (split_ws s)"
proof (induction s rule: split_ws.induct)
  case 1 then show ?case by simp
next
  case (2 c cs)
  show ?case
  proof (cases "is_space c")
    case True
    then have "\<not> is_word c" by (rule space_not_word)
    with True 2(1) show ?thesis by simp
  next
    case False
    define tok where "tok = c # takeWhile (\<lambda>x. \<not> is_space x) cs"
    define rest where "rest = dropWhile (\<lambda>x. \<not> is_space x) cs"
    have s: "c # cs = tok @ rest" by (simp add: tok_def rest_def)
    have tok: "tok \<noteq> []" "list_all (\<lambda>x. \<not> is_space x) tok"
      using False by (auto simp: tok_def list_all_iff dest: set_takeWhileD)
    then have stok: "sub_hyphenated tok \<noteq> []" "list_all (\<lambda>x. \<not> is_space x) (sub_hyphenated tok)"
      by (simp_all add: sub_hyphenated_no_space)
    have ih: "split_ws (sub_hyphenated rest) = map sub_hyphenated (split_ws rest)"
      using 2(2) [OF False] by (simp add: rest_def)
    have r: "split_ws (c # cs) = tok # split_ws rest"
      using False by (simp add: tok_def rest_def)
    show ?thesis
    proof (cases rest)
      case Nil
      with s ih r stok show ?thesis by (simp add: split_ws_single)
    next
      case (Cons sp rest')
      have "\<not> \<not> is_space (hd rest)"
        unfolding rest_def by (rule hd_dropWhile) (use Cons rest_def in simp)
      with Cons have sp: "is_space sp" by simp
      then have nw: "\<not> is_word sp" "sp \<noteq> CHR ''-''"
        by (simp_all add: space_not_word space_not_hyphen)
      have a: "sub_hyphenated (tok @ sp # rest') = sub_hyphenated tok @ sp # sub_hyphenated rest'"
        by (rule sub_hyphenated_sep [OF nw])
      have b: "sub_hyphenated rest = sp # sub_hyphenated rest'"
        using nw Cons by simp
      have "split_ws (sub_hyphenated tok @ sub_hyphenated rest)
            = sub_hyphenated tok # split_ws (sub_hyphenated rest)"
        by (rule split_ws_token [OF stok]) (simp add: b sp)
      with a b s Cons ih r show ?thesis by simp
    qed
  qed
qed

subsection \<open>The words of the normalizer\<close>

lemma index_of_first: "k \<notin> set b \<Longrightarrow> index_of k (b @ k # x) = length b"
  by (induction b) (auto simp: index_of_def)

lemma index_of_less: "k \<in> set b \<Longrightarrow> index_of k (b @ x) < length b"
  by (induction b) (auto simp: index_of_def)

lemma first_split: "k \<in> set w \<Longrightarrow> \<exists>b r. w = b @ k # r \<and> k \<notin> set b"
  by (metis split_list_first)

lemma paren_split:
  assumes "CHR ''('' \<in> set w" and "CHR '')'' \<in> set w"
    and "index_of CHR ''('' w < index_of CHR '')'' w"
  shows "\<exists>b m a. w = b @ CHR ''('' # m @ CHR '')'' # a
           \<and> CHR ''('' \<notin> set b \<and> CHR '')'' \<notin> set b \<and> CHR '')'' \<notin> set m"
proof -
  from first_split [OF assms(1)] obtain b r where w: "w = b @ CHR ''('' # r" and b: "CHR ''('' \<notin> set b"
    by blast
  have i: "index_of CHR ''('' w = length b" unfolding w using b by (rule index_of_first)
  have nb: "CHR '')'' \<notin> set b"
  proof
    assume "CHR '')'' \<in> set b"
    then have "index_of CHR '')'' (b @ CHR ''('' # r) < length b" by (rule index_of_less)
    with i assms(3) w show False by simp
  qed
  with assms(2) w have "CHR '')'' \<in> set r" by auto
  from first_split [OF this] obtain m a where r: "r = m @ CHR '')'' # a" and m: "CHR '')'' \<notin> set m"
    by blast
  from w r b nb m show ?thesis by blast
qed

lemma title_word_paren:
  assumes "CHR ''('' \<notin> set b" and "CHR '')'' \<notin> set b" and "CHR '')'' \<notin> set m"
  shows "title_word i (b @ CHR ''('' # m @ CHR '')'' # a)
         = capitalize b @ CHR ''('' # lower m @ CHR '')'' # a"
proof -
  let ?w = "b @ CHR ''('' # m @ CHR '')'' # a"
  have p: "index_of CHR ''('' ?w = length b" using assms(1) by (rule index_of_first)
  have "CHR '')'' \<notin> set (b @ CHR ''('' # m)" using assms(2,3) by simp
  from index_of_first [OF this, of a]
  have q: "index_of CHR '')'' ?w = length b + 1 + length m" by simp
  have t: "take (length b) ?w = b" by simp
  have sl: "slice (length b + 1) (length b + 1 + length m) ?w = m" by (simp add: slice_def)
  have d: "drop (length b + 1 + length m + 1) ?w = a" by simp
  have af: "(if length b + 1 + length m < length ?w - 1
             then drop (length b + 1 + length m + 1) ?w else []) = a"
    by (cases a) simp_all
  have "title_word i ?w =
     (let before_paren = take (index_of CHR ''('' ?w) ?w;
          in_paren = slice (index_of CHR ''('' ?w + 1) (index_of CHR '')'' ?w) ?w;
          after_paren = (if index_of CHR '')'' ?w < length ?w - 1
                         then drop (index_of CHR '')'' ?w + 1) ?w else [])
      in capitalize before_paren @ ''('' @ lower in_paren @ '')'' @ after_paren)"
    by (simp add: title_word_def)
  also have "\<dots> = capitalize b @ ''('' @ lower m @ '')'' @ a"
    unfolding Let_def p q t sl af ..
  finally show ?thesis by simp
qed

lemma title_word_plain:
  "\<not> (CHR ''('' \<in> set word \<and> CHR '')'' \<in> set word) \<Longrightarrow>
   title_word i word =
     (if i = 0 then (if CHR ''-'' \<notin> set word then capitalize word else word)
      else if lower word \<in> set small_words then lower word
      else if CHR ''-'' \<in> set word \<or> (case word of [] \<Rightarrow> False | c # _ \<Rightarrow> is_upper c) then word
      else capitalize word)"
  unfolding title_word_def by (rule if_not_P)

lemma small_words_marks:
  "x \<in> set small_words \<Longrightarrow> CHR ''-'' \<notin> set x \<and> CHR ''('' \<notin> set x \<and> CHR '')'' \<notin> set x"
  by (auto simp: small_words_def)

lemma lower_lower [simp]: "lower (lower x) = lower x"
  by (simp add: lower_def)

lemma lower_fold: "map to_lower x = map to_lower y \<Longrightarrow> lower x = lower y"
  by (simp add: lower_def)

lemma map_to_lower_lower [simp]: "map to_lower (lower x) = map to_lower x"
  by (simp add: lower_def)

lemma title_word_fixed:
  assumes np: "\<not> (CHR ''('' \<in> set w \<and> CHR '')'' \<in> set w)"
  shows "title_word i (title_word i w) = title_word i w"
    and "CHR ''-'' \<in> set (title_word i w) \<Longrightarrow> title_word i w = w"
proof -
  have marks: "(k \<in> set r) = (k \<in> set w)"
    if "map to_lower r = map to_lower w" and "k = CHR ''('' \<or> k = CHR '')'' \<or> k = CHR ''-''" for r k
    using that by (rule fold_mem)
  have cap: "title_word i (capitalize w) = capitalize w" if "CHR ''-'' \<notin> set w" "i = 0 \<or> lower w \<notin> set small_words"
  proof -
    have f: "map to_lower (capitalize w) = map to_lower w" by simp
    have np': "\<not> (CHR ''('' \<in> set (capitalize w) \<and> CHR '')'' \<in> set (capitalize w))"
      using np marks [OF f] by simp
    have h: "CHR ''-'' \<notin> set (capitalize w)" using that(1) marks [OF f] by simp
    have l: "lower (capitalize w) = lower w" by (simp add: lower_def)
    show ?thesis using that(2) by (auto simp add: title_word_plain [OF np'] h l)
  qed
  have low: "title_word i (lower w) = lower w" if "i \<noteq> 0" "lower w \<in> set small_words"
  proof -
    from small_words_marks [OF that(2)]
    have np': "\<not> (CHR ''('' \<in> set (lower w) \<and> CHR '')'' \<in> set (lower w))" by simp
    show ?thesis using that by (simp add: title_word_plain [OF np'])
  qed
  show "title_word i (title_word i w) = title_word i w"
    using cap low by (auto simp add: title_word_plain [OF np])
  show "title_word i w = w" if "CHR ''-'' \<in> set (title_word i w)"
  proof -
    have f: "map to_lower (capitalize w) = map to_lower w" by simp
    have a: "CHR ''-'' \<in> set (capitalize w) \<Longrightarrow> CHR ''-'' \<in> set w" using marks [OF f] by simp
    have b: "lower w \<in> set small_words \<Longrightarrow> CHR ''-'' \<notin> set (lower w)"
      using small_words_marks by blast
    show ?thesis using that a b by (auto simp add: title_word_plain [OF np] split: if_splits)
  qed
qed

lemma title_word_idem:
  assumes s: "sub_hyphenated w = w" and p: "paren_ordered w"
  shows "title_word i (sub_hyphenated (title_word i w)) = title_word i w"
proof (cases "CHR ''('' \<in> set w \<and> CHR '')'' \<in> set w")
  case True
  with p have "index_of CHR ''('' w < index_of CHR '')'' w" by (simp add: paren_ordered_def)
  with True paren_split obtain b m a where w: "w = b @ CHR ''('' # m @ CHR '')'' # a"
    and b: "CHR ''('' \<notin> set b" "CHR '')'' \<notin> set b" and m: "CHR '')'' \<notin> set m"
    by blast
  have sep: "sub_hyphenated (x @ CHR ''('' # y) = sub_hyphenated x @ CHR ''('' # sub_hyphenated y"
            "sub_hyphenated (x @ CHR '')'' # y) = sub_hyphenated x @ CHR '')'' # sub_hyphenated y"
    for x y
    by (rule sub_hyphenated_sep; simp add: char_defs)+
  have "sub_hyphenated w = sub_hyphenated b @ CHR ''('' # sub_hyphenated m @ CHR '')'' # sub_hyphenated a"
    by (simp add: w sep)
  with s w have "sub_hyphenated b @ CHR ''('' # sub_hyphenated m @ CHR '')'' # sub_hyphenated a
                 = b @ CHR ''('' # m @ CHR '')'' # a" by simp
  then have a: "sub_hyphenated a = a" by simp
  have r: "title_word i w = capitalize b @ CHR ''('' # lower m @ CHR '')'' # a"
    unfolding w using b m by (rule title_word_paren)
  define b' where "b' = sub_hyphenated (capitalize b)"
  define m' where "m' = sub_hyphenated (lower m)"
  have fb: "map to_lower b' = map to_lower b" by (simp add: b'_def sub_hyphenated_fold)
  have fm: "map to_lower m' = map to_lower m" by (simp add: m'_def sub_hyphenated_fold)
  have sr: "sub_hyphenated (title_word i w) = b' @ CHR ''('' # m' @ CHR '')'' # a"
    by (simp add: r sep a b'_def m'_def)
  have nb: "CHR ''('' \<notin> set b'" "CHR '')'' \<notin> set b'" and nm: "CHR '')'' \<notin> set m'"
    using b m fold_mem [OF fb] fold_mem [OF fm] by simp_all
  have cb: "capitalize b' = capitalize b" using fb by (rule capitalize_fold)
  have lm: "lower m' = lower m" using fm by (rule lower_fold)
  have "title_word i (sub_hyphenated (title_word i w))
        = title_word i (b' @ CHR ''('' # m' @ CHR '')'' # a)"
    by (simp only: sr)
  also have "\<dots> = capitalize b' @ CHR ''('' # lower m' @ CHR '')'' # a"
    using nb nm by (rule title_word_paren)
  also have "\<dots> = capitalize b @ CHR ''('' # lower m @ CHR '')'' # a"
    by (simp only: cb lm)
  also have "\<dots> = title_word i w"
    by (simp only: r)
  finally show ?thesis .
next
  case False
  show ?thesis
  proof (cases "CHR ''-'' \<in> set (title_word i w)")
    case True
    with title_word_fixed(2) [OF False] have "title_word i w = w" by simp
    with s show ?thesis by simp
  next
    case nh: False
    then have "sub_hyphenated (title_word i w) = title_word i w" by (rule sub_hyphenated_no_hyphen)
    with title_word_fixed(1) [OF False] show ?thesis by simp
  qed
qed

lemma title_word_token:
  assumes "w \<noteq> []" and "list_all (\<lambda>x. \<not> is_space x) w"
  shows "title_word i w \<noteq> [] \<and> list_all (\<lambda>x. \<not> is_space x) (title_word i w)"
proof -
  have c: "list_all (\<lambda>x. \<not> is_space x) (capitalize x)" if "list_all (\<lambda>x. \<not> is_space x) x" for x
    using that by (cases x) (auto simp: capitalize_Cons list_all_iff)
  have l: "list_all (\<lambda>x. \<not> is_space x) (lower x)" if "list_all (\<lambda>x. \<not> is_space x) x" for x
    using that by (auto simp: lower_def list_all_iff)
  have t: "list_all (\<lambda>x. \<not> is_space x) (take n w)" for n
    using assms(2) by (auto simp: list_all_iff dest: in_set_takeD)
  have d: "list_all (\<lambda>x. \<not> is_space x) (drop n w)" for n
    using assms(2) by (auto simp: list_all_iff dest: in_set_dropD)
  have sl: "list_all (\<lambda>x. \<not> is_space x) (slice n k w)" for n k
    using assms(2) by (auto simp: slice_def list_all_iff dest: in_set_takeD in_set_dropD)
  have sp: "\<not> is_space CHR ''(''" "\<not> is_space CHR '')''" by (simp_all add: char_defs)
  show ?thesis
    using assms c [OF assms(2)] l [OF assms(2)] c [OF t] l [OF sl] d sp
    by (simp add: title_word_def Let_def lower_def)
qed

lemma title_words_tokens:
  "\<forall>w \<in> set ws. w \<noteq> [] \<and> list_all (\<lambda>x. \<not> is_space x) w \<Longrightarrow>
   \<forall>w \<in> set (title_words i ws). w \<noteq> [] \<and> list_all (\<lambda>x. \<not> is_space x) w"
  by (induction ws arbitrary: i) (simp_all add: title_word_token)

lemma title_words_eq_Nil [simp]: "(title_words i ws = []) = (ws = [])"
  by (cases ws) simp_all

lemma title_words_idem:
  "\<forall>w \<in> set ws. sub_hyphenated w = w \<and> paren_ordered w \<Longrightarrow>
   title_words i (map sub_hyphenated (title_words i ws)) = title_words i ws"
  by (induction ws arbitrary: i) (simp_all add: title_word_idem)

lemma paren_ordered_sub_hyphenated: "paren_ordered (sub_hyphenated w) = paren_ordered w"
  using fold_mem [OF sub_hyphenated_fold [of w]] fold_index [OF sub_hyphenated_fold [of w]]
  by (simp add: paren_ordered_def)

lemma to_title_case_idem:
  assumes "list_all paren_ordered (split_ws s)"
  shows "to_title_case (to_title_case s) = to_title_case s"
proof (cases "s = []")
  case True then show ?thesis by (simp add: to_title_case_def)
next
  case ne: False
  have sw: "split_ws (sub_hyphenated s) = map sub_hyphenated (split_ws s)"
    by (rule split_ws_sub_hyphenated)
  show ?thesis
  proof (cases "split_ws s = []")
    case True
    with ne sw have "to_title_case s = sub_hyphenated s" by (simp add: to_title_case_def)
    moreover have "to_title_case (sub_hyphenated s) = sub_hyphenated s"
      using True sw by (simp add: to_title_case_def sub_hyphenated_idem)
    ultimately show ?thesis by simp
  next
    case False
    define words where "words = map sub_hyphenated (split_ws s)"
    define tw where "tw = title_words 0 words"
    have t: "to_title_case s = join '' '' tw"
      using ne False sw by (simp add: to_title_case_def tw_def words_def)
    have good: "\<forall>w \<in> set words. sub_hyphenated w = w \<and> paren_ordered w"
      using assms by (auto simp: words_def sub_hyphenated_idem paren_ordered_sub_hyphenated list_all_iff)
    have tok: "\<forall>w \<in> set words. w \<noteq> [] \<and> list_all (\<lambda>x. \<not> is_space x) w"
      using split_ws_tokens [of _ s] by (auto simp: words_def sub_hyphenated_no_space)
    then have "\<forall>w \<in> set tw. w \<noteq> [] \<and> list_all (\<lambda>x. \<not> is_space x) w"
      unfolding tw_def by (rule title_words_tokens)
    then have "\<forall>w \<in> set (map sub_hyphenated tw). w \<noteq> [] \<and> list_all (\<lambda>x. \<not> is_space x) w"
      by (simp add: sub_hyphenated_no_space)
    then have sp: "split_ws (join '' '' (map sub_hyphenated tw)) = map sub_hyphenated tw"
      by (rule split_ws_join)
    have twne: "tw \<noteq> []" using False by (simp add: tw_def words_def)
    have idem: "title_words 0 (map sub_hyphenated tw) = tw"
      unfolding tw_def using good by (rule title_words_idem)
    have "to_title_case (join '' '' tw) = join '' '' tw"
      using twne by (simp add: to_title_case_def sub_hyphenated_join sp idem)
    with t show ?thesis by simp
  qed
qed

subsection \<open>A second migration\<close>

lemma rename_keys_again:
  assumes "rename_keys st obj m ctx = Inr (st1, obj1)" and "fst ` set m \<inter> snd ` set m = {}"
  shows "rename_keys st2 obj1 m ctx2 = Inr (st2, obj1)"
proof (rule rename_keys_no_sources, rule ballI)
  fix k assume "k \<in> fst ` set m"
  with assms show "map_of obj1 k = None" by (rule rename_keys_sources_gone)
qed

lemma rename_keys_value_idem:
  assumes "fst ` set m \<inter> snd ` set m = {}" and "rename_keys_value m st x = Inr (st1, x1)"
  shows "rename_keys_value m st2 x1 = Inr (st2, x1)"
  using rename_keys_value_shape [OF assms(2)]
proof
  assume "\<exists>d d'. x = JObj d \<and> x1 = JObj d' \<and> rename_keys st d m [] = Inr (st1, d')"
  then obtain d d' where x1: "x1 = JObj d'" and r: "rename_keys st d m [] = Inr (st1, d')" by blast
  from rename_keys_again [OF r assms(1)] show ?thesis by (simp add: rename_keys_value_def x1)
next
  assume "(\<forall>d. x \<noteq> JObj d) \<and> x1 = x \<and> st1 = st"
  with assms(2) show ?thesis
    by (cases x) (auto simp: rename_keys_value_def split: if_splits)
qed

lemma rename_keys_value_str: "rename_keys_value m st (JStr s) = Inr (st', x') \<Longrightarrow> x' = JStr s"
  by (auto simp: rename_keys_value_def split: if_splits)

lemma standardize_pattern_idem:
  assumes "standardize_pattern st p = Inr (st', p')"
  shows "standardize_pattern st2 p' = Inr (st2, p')"
proof -
  from assms obtain st1 p1 where r: "rename_keys_value pattern_mapping st p = Inr (st1, p1)"
    by (auto simp: standardize_pattern_def split: sum.splits)
  have again: "rename_keys_value pattern_mapping st2 p1 = Inr (st2, p1)"
    using tables_unchained(3) r by (rule rename_keys_value_idem)
  from rename_keys_value_shape [OF r] show ?thesis
  proof
    assume "\<exists>d d'. p = JObj d \<and> p1 = JObj d' \<and> rename_keys st d pattern_mapping [] = Inr (st1, d')"
    then obtain d d1 where p1: "p1 = JObj d1"
      and rk: "rename_keys st d pattern_mapping [] = Inr (st1, d1)" by blast
    have gone: "map_of d1 k = None" if "k \<in> fst ` set pattern_mapping" for k
      using rk tables_unchained(3) that by (rule rename_keys_sources_gone)
    show ?thesis
    proof (cases "map_of d1 ''moves''")
      case None
      with assms r p1 have "p' = p1"
        by (simp add: standardize_pattern_def py_in_def has_key_def)
      with again None p1 show ?thesis
        by (simp add: standardize_pattern_def py_in_def has_key_def)
    next
      case (Some moves)
      with assms r p1 obtain items items' where
        it: "py_iter moves = Inr items"
        and fe: "for_each (rename_keys_value move_mapping) st1 items = Inr (st', items')"
        and p': "p' = JObj (dict_set ''moves'' (put_back moves items') d1)"
        by (auto simp: standardize_pattern_def py_in_def has_key_def py_index_def
                 split: sum.splits)
      let ?d = "dict_set ''moves'' (put_back moves items') d1"
      have "\<forall>k \<in> fst ` set pattern_mapping. map_of ?d k = None"
        using gone by (auto simp: pattern_mapping_def)
      then have a: "rename_keys st2 ?d pattern_mapping [] = Inr (st2, ?d)"
        by (rule rename_keys_no_sources)
      have b: "py_iter (put_back moves items') = Inr items'"
        using it _ fe by (rule put_back_iter) (rule rename_keys_value_str)
      have c: "for_each (rename_keys_value move_mapping) st2 items' = Inr (st2, items')"
        using fe by (rule for_each_idem [rotated]) (rule rename_keys_value_idem [OF tables_unchained(4)])
      show ?thesis
        by (simp add: standardize_pattern_def p' rename_keys_value_def a py_in_def has_key_def
            py_index_def b c put_back_put_back)
    qed
  next
    assume "(\<forall>d. p \<noteq> JObj d) \<and> p1 = p \<and> st1 = st"
    with assms r again show ?thesis
      by (cases p)
         (auto simp: standardize_pattern_def py_in_def py_index_def split: sum.splits if_splits bool.splits)
  qed
qed

lemma standardize_pattern_str: "standardize_pattern st (JStr s) = Inr (st', x') \<Longrightarrow> x' = JStr s"
  by (auto simp: standardize_pattern_def rename_keys_value_def py_in_def py_index_def
           split: sum.splits if_splits bool.splits)

lemma standardize_patterns_idem:
  assumes "standardize_patterns st data = Inr (st', data')"
  shows "standardize_patterns st2 data' = Inr (st2, data')"
proof (cases data)
  case (JObj d)
  show ?thesis
  proof (cases "map_of d ''patterns''")
    case None
    with assms JObj show ?thesis
      by (auto simp add: standardize_patterns_def py_in_def has_key_def)
  next
    case (Some patterns)
    with assms JObj obtain items items' where
      it: "py_iter patterns = Inr items"
      and fe: "for_each standardize_pattern st items = Inr (st', items')"
      and d': "data' = JObj (dict_set ''patterns'' (put_back patterns items') d)"
      by (auto simp: standardize_patterns_def py_in_def has_key_def py_index_def
               split: sum.splits)
    have b: "py_iter (put_back patterns items') = Inr items'"
      using it _ fe by (rule put_back_iter) (rule standardize_pattern_str)
    have c: "for_each standardize_pattern st2 items' = Inr (st2, items')"
      using fe by (rule for_each_idem [rotated]) (rule standardize_pattern_idem)
    show ?thesis
      by (simp add: standardize_patterns_def d' py_in_def has_key_def py_index_def b c
          put_back_put_back)
  qed
qed (use assms in \<open>auto simp: standardize_patterns_def py_in_def py_index_def split: sum.splits if_splits bool.splits\<close>)

subsection \<open>The claim on idempotence\<close>

text \<open>
  Where the normalizer and the migrator are idempotent. For every ASCII string in which no
  whitespace-separated token has its first closing parenthesis before its first opening
  one, \<^verbatim>\<open>to_title_case\<close> applied to its own result returns that result. For every node
  and every table with distinct source keys in which no target key is also a source key,
  as in every table of the script, \<^verbatim>\<open>_rename_keys\<close> returns, and a second call on the
  result returns the same node and the same standardizer: no counter moves and nothing is
  added to the log. And whenever the migration of a pattern document returns, a second
  migration of the result returns the same document and the same standardizer.
\<close>

lemma normalizer_and_migrator_idempotent:
  "(list_all is_ascii s \<and> list_all paren_ordered (split_ws s)
      \<longrightarrow> to_title_case (to_title_case s) = to_title_case s)
   \<and> (distinct (map fst m) \<and> fst ` set m \<inter> snd ` set m = {}
      \<longrightarrow> (\<exists>st1 obj1. rename_keys st obj m ctx = Inr (st1, obj1)
                      \<and> rename_keys st1 obj1 m ctx = Inr (st1, obj1)))
   \<and> (standardize_patterns st0 data = Inr (st', data')
      \<longrightarrow> standardize_patterns st' data' = Inr (st', data'))"
  using to_title_case_idem [of s] rename_keys_idempotent [of m st obj ctx]
    standardize_patterns_idem [of st0 data st' data' st']
  by blast

lemma to_title_case_twice_example:
  "to_title_case ''knife-hand strike(LOW) of the 3-step'' = ''Knife-Hand Strike(low) of the 3-Step''
   \<and> to_title_case ''Knife-Hand Strike(low) of the 3-Step'' = ''Knife-Hand Strike(low) of the 3-Step''"
  by code_simp

text \<open>
  C1. The migrator is idempotent with every table of the script, and the normalizer is
  idempotent on every ASCII text whose tokens have their parentheses in order, but not on
  every string, as the claim has it. In the branch for a token with both parentheses the
  part before \<^verbatim>\<open>(\<close> is \<^verbatim>\<open>word[:word.index('(')]\<close> and the part after \<^verbatim>\<open>)\<close> is
  \<^verbatim>\<open>word[word.index(')')+1:]\<close>; when the first \<^verbatim>\<open>)\<close> stands before the first \<^verbatim>\<open>(\<close> the two
  parts overlap, the text between them is \<^verbatim>\<open>word[word.index('(')+1:word.index(')')]\<close>,
  which is empty, and the token is put together with a part of it twice. So
  \<^verbatim>\<open>to_title_case(")a(")\<close> is \<^verbatim>\<open>")a()a("\<close>, and \<^verbatim>\<open>to_title_case\<close> of that is
  \<^verbatim>\<open>")a()a()a("\<close>: the second run changes the result of the first.
\<close>

theorem to_title_case_repeats_reversed_parentheses:
  "to_title_case '')a('' = '')a()a(''
   \<and> to_title_case (to_title_case '')a('') = '')a()a()a(''
   \<and> to_title_case (to_title_case '')a('') \<noteq> to_title_case '')a(''"
proof -
  have a: "to_title_case '')a('' = '')a()a(''" by code_simp
  have b: "to_title_case '')a()a('' = '')a()a()a(''" by code_simp
  from a b show ?thesis by simp
qed

end
